theory Spec2Isabelle
  imports Complex_Main
begin

section \<open>The circuit layer used by the route-optimisation notebook\<close>

text \<open>
  The notebook builds its ansatz by calling gate methods on a mutable circuit object.
  A gate method looks every qubit argument up in the circuit's qubit list (a Python list,
  so a negative integer counts from the end and anything out of range raises), refuses
  repeated qubit arguments, and then appends one instruction. A parameter is obtained
  by indexing a parameter vector, again a Python list lookup.
\<close>

text \<open>
  The exceptions that occur: the two raised by the lookups above, and \<open>ExternalError\<close>
  for whatever an external service (the estimator) raises.
\<close>

datatype error = CircuitError | IndexError | ExternalError string

datatype parameter_vector = ParameterVector (pv_name: string) (pv_length: nat)

datatype parameter = ParameterVectorElement (vector_name: string) (index: nat)

datatype parameter_expression = Par parameter | Neg parameter

datatype operation =
    XGate
  | RYGate parameter_expression
  | CZGate
  | CXGate
  | CSwapGate
  | Barrier
  | Measure

datatype circuit_instruction =
  CircuitInstruction (operation: operation) (qubits: "nat list") (clbits: "nat list")

record quantum_circuit =
  num_qubits :: nat
  num_clbits :: nat
  data :: "circuit_instruction list"

definition QuantumCircuit :: "nat \<Rightarrow> quantum_circuit" where
  "QuantumCircuit n = \<lparr>num_qubits = n, num_clbits = 0, data = []\<rparr>"

text \<open>Python's \<open>range(a, b, 1)\<close> over integers.\<close>

definition py_range :: "int \<Rightarrow> int \<Rightarrow> int list" where
  "py_range a b = [a..b - 1]"

text \<open>Python list indexing by position: \<open>len + i\<close> for a negative \<open>i\<close>, IndexError outside.\<close>

definition py_index :: "nat \<Rightarrow> int \<Rightarrow> error + nat" where
  "py_index len i =
     (let j = (if i < 0 then int len + i else i)
      in if 0 \<le> j \<and> j < int len then Inr (nat j) else Inl IndexError)"

text \<open>\<open>theta[j]\<close> on a parameter vector.\<close>

definition getitem :: "parameter_vector \<Rightarrow> int \<Rightarrow> error + parameter" where
  "getitem theta j =
     (case py_index (pv_length theta) j of
        Inl e \<Rightarrow> Inl e
      | Inr i \<Rightarrow> Inr (ParameterVectorElement (pv_name theta) i))"

text \<open>An integer qubit specifier: the list lookup, with IndexError reported as CircuitError.\<close>

definition qbit_argument_conversion :: "quantum_circuit \<Rightarrow> int \<Rightarrow> error + nat" where
  "qbit_argument_conversion qc q =
     (case py_index (num_qubits qc) q of
        Inl e \<Rightarrow> Inl CircuitError
      | Inr i \<Rightarrow> Inr i)"

fun convert_all :: "quantum_circuit \<Rightarrow> int list \<Rightarrow> error + nat list" where
  "convert_all qc [] = Inr []"
| "convert_all qc (q # qs) =
     (case qbit_argument_conversion qc q of
        Inl e \<Rightarrow> Inl e
      | Inr b \<Rightarrow> (case convert_all qc qs of Inl e \<Rightarrow> Inl e | Inr bs \<Rightarrow> Inr (b # bs)))"

text \<open>
  A statement of the notebook acts on the circuit and either completes or raises; the
  circuit is mutated in place, so what was appended before a raise stays appended.
\<close>

type_synonym stmt = "quantum_circuit \<Rightarrow> error option \<times> quantum_circuit"

definition append_gate :: "operation \<Rightarrow> int list \<Rightarrow> stmt" where
  "append_gate g qargs qc =
     (case convert_all qc qargs of
        Inl e \<Rightarrow> (Some e, qc)
      | Inr qs \<Rightarrow>
          if distinct qs
          then (None, qc\<lparr>data := data qc @ [CircuitInstruction g qs []]\<rparr>)
          else (Some CircuitError, qc))"

definition QC_x :: "int \<Rightarrow> stmt" where
  "QC_x q = append_gate XGate [q]"

definition QC_ry :: "parameter_expression \<Rightarrow> int \<Rightarrow> stmt" where
  "QC_ry theta q = append_gate (RYGate theta) [q]"

definition QC_cz :: "int \<Rightarrow> int \<Rightarrow> stmt" where
  "QC_cz c t = append_gate CZGate [c, t]"

definition QC_cx :: "int \<Rightarrow> int \<Rightarrow> stmt" where
  "QC_cx c t = append_gate CXGate [c, t]"

definition QC_cswap :: "int \<Rightarrow> int \<Rightarrow> int \<Rightarrow> stmt" where
  "QC_cswap c t1 t2 = append_gate CSwapGate [c, t1, t2]"

text \<open>
  \<open>measure_all\<close> adds a classical register as wide as the qubit register, a barrier over
  all qubits, and one measurement per qubit into the new register.
\<close>

definition measure_all :: stmt where
  "measure_all qc =
     (let N = num_qubits qc; c0 = num_clbits qc
      in (None, qc\<lparr>num_clbits := c0 + N,
                    data := data qc @ CircuitInstruction Barrier [0..<N] []
                              # map (\<lambda>i. CircuitInstruction Measure [i] [c0 + i]) [0..<N]\<rparr>))"

text \<open>Statements in sequence; a raise ends the sequence.\<close>

fun block :: "stmt list \<Rightarrow> stmt" where
  "block [] qc = (None, qc)"
| "block (s # ss) qc =
     (case s qc of
        (None, qc') \<Rightarrow> block ss qc'
      | (Some e, qc') \<Rightarrow> (Some e, qc'))"

definition for_loop :: "'a list \<Rightarrow> ('a \<Rightarrow> stmt) \<Rightarrow> stmt" where
  "for_loop xs body = block (map body xs)"

text \<open>An argument expression \<open>theta[j]\<close> is evaluated before the gate method is entered.\<close>

definition with_item :: "parameter_vector \<Rightarrow> int \<Rightarrow> (parameter \<Rightarrow> stmt) \<Rightarrow> stmt" where
  "with_item theta j k qc =
     (case getitem theta j of
        Inl e \<Rightarrow> (Some e, qc)
      | Inr t \<Rightarrow> k t qc)"

section \<open>The ansatz of the route-optimisation notebook\<close>

text \<open>
  \<open>base_circuit\<close> also creates a one-element parameter vector that it never uses; that
  statement has no effect on the circuit and is left out.
\<close>

definition base_circuit :: "int \<Rightarrow> parameter_vector \<Rightarrow> stmt" where
  "base_circuit n theta = block
     [QC_x 0,
      with_item theta 1 (\<lambda>t. QC_ry (Par t) 1),
      QC_cz 0 1,
      with_item theta 1 (\<lambda>t. QC_ry (Neg t) 1),
      QC_cx 1 0,
      QC_cx 1 n,
      QC_cx 0 (n + 1)]"

definition W_circuit :: "int \<Rightarrow> int \<Rightarrow> parameter_vector \<Rightarrow> stmt" where
  "W_circuit n q1n theta = block
     [QC_x q1n,
      for_loop (py_range (q1n + 1) (q1n + n)) (\<lambda>j. block
        [with_item theta (j - 1) (\<lambda>t. QC_ry (Par t) j),
         QC_cz (j - 1) j,
         with_item theta (j - 1) (\<lambda>t. QC_ry (Neg t) j)]),
      for_loop (py_range (q1n + 1) (q1n + n)) (\<lambda>j. QC_cx j (j - 1))]"

text \<open>The three operands of the controlled swap of stage \<open>k\<close> at positions \<open>v\<close>, \<open>p\<close>.\<close>

definition cswap_operands :: "int \<Rightarrow> int \<Rightarrow> int \<Rightarrow> int \<Rightarrow> int \<times> int \<times> int" where
  "cswap_operands n k v p =
     (n * (k - 1) + v - 1, n * (p - 1) + n - (n - k) - 1, n * (p - 1) + v - 1)"

definition cswap_stage :: "int \<Rightarrow> stmt" where
  "cswap_stage n =
     for_loop (py_range 3 (n + 1)) (\<lambda>k.
       for_loop (py_range 1 k) (\<lambda>v.
         for_loop (py_range 1 k) (\<lambda>p.
           case cswap_operands n k v p of (c, t1, t2) \<Rightarrow> QC_cswap c t1 t2)))"

definition W_stage :: "int \<Rightarrow> parameter_vector \<Rightarrow> stmt" where
  "W_stage n phi = for_loop (py_range 3 (n + 1)) (\<lambda>i. W_circuit i (n * (i - 1)) phi)"

text \<open>The top-level statements of the cell: \<open>num_qubits = n ** 2\<close>, the circuit, the vector \<open>phi\<close>.\<close>

definition ansatz_num_qubits :: "int \<Rightarrow> nat" where
  "ansatz_num_qubits n = nat (n ^ 2)"

definition phi :: "int \<Rightarrow> parameter_vector" where
  "phi n = ParameterVector ''phi'' (ansatz_num_qubits n)"

definition ansatz :: "int \<Rightarrow> error option \<times> quantum_circuit" where
  "ansatz n =
     block [base_circuit n (phi n), W_stage n (phi n), cswap_stage n, measure_all]
       (QuantumCircuit (ansatz_num_qubits n))"


section \<open>The cost function and its trace\<close>

text \<open>
  Both notebooks keep a module-level dictionary with the keys \<open>prev_vector\<close>, \<open>iters\<close>
  and \<open>cost_history\<close>, created once when its cell is run.
\<close>

record ('p, 'e) cost_dict =
  prev_vector :: "'p option"
  iters :: int
  cost_history :: "'e list"

definition cost_history_dict :: "('p, 'e) cost_dict" where
  "cost_history_dict = \<lparr>prev_vector = None, iters = 0, cost_history = []\<rparr>"

text \<open>
  The estimator is an external service. One request
  \<open>estimator.run(pubs=[pub]).result()[0].data.evs[0]\<close> either raises or yields an
  energy, and may change the service's own state \<open>'s\<close> (a session, a random generator).
  The state a cost function acts on is that service state together with the dictionary.
\<close>

type_synonym ('c, 'h, 'p, 'e, 's) estimator = "'c \<Rightarrow> 'h \<Rightarrow> 'p \<Rightarrow> 's \<Rightarrow> (error + 'e) \<times> 's"

text \<open>\<open>cost_func\<close> of the route-optimisation notebook (its \<open>print\<close> is not modelled).\<close>

definition cost_func ::
  "'p \<Rightarrow> 'c \<Rightarrow> 'h \<Rightarrow> ('c, 'h, 'p, 'e, 's) estimator \<Rightarrow> 's \<times> ('p, 'e) cost_dict
     \<Rightarrow> (error + 'e) \<times> ('s \<times> ('p, 'e) cost_dict)" where
  "cost_func params circ hamiltonian estimator g =
     (case estimator circ hamiltonian params (fst g) of
        (Inl err, s') \<Rightarrow> (Inl err, (s', snd g))
      | (Inr energy, s') \<Rightarrow>
          (Inr energy,
           (s', (snd g)\<lparr>iters := iters (snd g) + 1,
                        prev_vector := Some params,
                        cost_history := cost_history (snd g) @ [energy]\<rparr>)))"

text \<open>\<open>cost_fn\<close> of the Ising notebook: the same body.\<close>

definition cost_fn ::
  "'p \<Rightarrow> 'c \<Rightarrow> 'h \<Rightarrow> ('c, 'h, 'p, 'e, 's) estimator \<Rightarrow> 's \<times> ('p, 'e) cost_dict
     \<Rightarrow> (error + 'e) \<times> ('s \<times> ('p, 'e) cost_dict)" where
  "cost_fn params circ hamiltonian estimator g =
     (case estimator circ hamiltonian params (fst g) of
        (Inl err, s') \<Rightarrow> (Inl err, (s', snd g))
      | (Inr energy, s') \<Rightarrow>
          (Inr energy,
           (s', (snd g)\<lparr>iters := iters (snd g) + 1,
                        prev_vector := Some params,
                        cost_history := cost_history (snd g) @ [energy]\<rparr>)))"

text \<open>A sequence of calls of a cost function, one per parameter vector; a raise ends it.\<close>

fun calls :: "('p \<Rightarrow> 'g \<Rightarrow> (error + 'e) \<times> 'g) \<Rightarrow> 'p list \<Rightarrow> 'g \<Rightarrow> (error + 'e list) \<times> 'g" where
  "calls f [] g = (Inr [], g)"
| "calls f (x # xs) g =
     (case f x g of
        (Inl err, g') \<Rightarrow> (Inl err, g')
      | (Inr e, g') \<Rightarrow>
          (case calls f xs g' of
             (Inl err, g'') \<Rightarrow> (Inl err, g'')
           | (Inr es, g'') \<Rightarrow> (Inr (e # es), g'')))"

text \<open>
  The minimizer is an external collaborator too. What the drivers rely on is that it
  calls the cost function at points of its choosing, one after the other and at most
  \<open>maxiter\<close> times, each point decided from the evaluations made so far (\<open>None\<close>: it
  stops), and that an exception of the cost function ends the run. The result stands for
  the \<open>res\<close> object: the evaluations made, in order.
\<close>

fun minimize ::
  "('p \<Rightarrow> 'g \<Rightarrow> (error + 'e) \<times> 'g) \<Rightarrow> (('p \<times> 'e) list \<Rightarrow> 'p option) \<Rightarrow> nat
     \<Rightarrow> ('p \<times> 'e) list \<Rightarrow> 'g \<Rightarrow> (error + ('p \<times> 'e) list) \<times> 'g" where
  "minimize f method 0 seen g = (Inr seen, g)"
| "minimize f method (Suc maxiter) seen g =
     (case method seen of
        None \<Rightarrow> (Inr seen, g)
      | Some x \<Rightarrow>
          (case f x g of
             (Inl err, g') \<Rightarrow> (Inl err, g')
           | (Inr e, g') \<Rightarrow> minimize f method maxiter (seen @ [(x, e)]) g'))"

section \<open>The Ising notebook\<close>

text \<open>
  An operator is a list of Pauli labels with coefficients. A scalar multiple by a number
  other than 0 scales every coefficient, a sum puts the terms of the two operands one
  after the other.
\<close>

type_synonym sparse_pauli_op = "(string \<times> complex) list"

definition SparsePauliOp :: "string \<Rightarrow> sparse_pauli_op" where
  "SparsePauliOp label = [(label, 1)]"

text \<open>
  The number of qubits of an operator is the length of its labels. Multiplication by the
  scalar 0 does not keep the terms: the library returns the single all-identity label with
  coefficient 0.
\<close>

definition op_num_qubits :: "sparse_pauli_op \<Rightarrow> nat" where
  "op_num_qubits A = (case A of [] \<Rightarrow> 0 | (label, a) # _ \<Rightarrow> length label)"

definition op_mul :: "complex \<Rightarrow> sparse_pauli_op \<Rightarrow> sparse_pauli_op" where
  "op_mul c A =
     (if c = 0 then [(replicate (op_num_qubits A) CHR ''I'', 0)]
      else map (\<lambda>(label, a). (label, c * a)) A)"

definition op_add :: "sparse_pauli_op \<Rightarrow> sparse_pauli_op \<Rightarrow> sparse_pauli_op" where
  "op_add A B = A @ B"

definition list_getitem :: "'a list \<Rightarrow> int \<Rightarrow> error + 'a" where
  "list_getitem xs i =
     (case py_index (length xs) i of Inl e \<Rightarrow> Inl e | Inr k \<Rightarrow> Inr (xs ! k))"

definition Hamiltonian :: "complex \<Rightarrow> complex \<Rightarrow> sparse_pauli_op list \<Rightarrow> error + sparse_pauli_op" where
  "Hamiltonian J b observables =
     (case list_getitem observables 0 of
        Inl e \<Rightarrow> Inl e
      | Inr o0 \<Rightarrow>
          (case list_getitem observables 1 of
             Inl e \<Rightarrow> Inl e
           | Inr o1 \<Rightarrow>
               (case list_getitem observables 2 of
                  Inl e \<Rightarrow> Inl e
                | Inr o2 \<Rightarrow> Inr (op_add (op_mul (- J) o0) (op_mul b (op_add o1 o2))))))"

definition observables_labels :: "string list" where
  "observables_labels = [''ZZ'', ''IX'', ''XI'']"

definition observables :: "sparse_pauli_op list" where
  "observables = map SparsePauliOp observables_labels"

definition J :: complex where
  "J = 1"

text \<open>
  \<open>np.linspace(start, stop, num)\<close> with the floating-point values read as the real
  numbers they approximate.
\<close>

definition linspace :: "real \<Rightarrow> real \<Rightarrow> nat \<Rightarrow> real list" where
  "linspace start stop num =
     map (\<lambda>i. start + real i * ((stop - start) / real (num - 1))) [0..<num]"

definition b_list :: "real list" where
  "b_list = linspace 0 4 10"

text \<open>
  The classical benchmark loop. The conversion to a matrix and the sorted eigenvalues are
  external; the loop variable \<open>b\<close> runs over \<open>range(len(b_list))\<close>.
\<close>

fun classical_loop ::
  "(sparse_pauli_op \<Rightarrow> 'm) \<Rightarrow> ('m \<Rightarrow> 'v) \<Rightarrow> int list \<Rightarrow> 'v list \<Rightarrow> error option \<times> 'v list" where
  "classical_loop to_matrix sorted_eig [] energy_levels = (None, energy_levels)"
| "classical_loop to_matrix sorted_eig (b # bs) energy_levels =
     (case Hamiltonian J (of_int b) observables of
        Inl e \<Rightarrow> (Some e, energy_levels)
      | Inr H \<Rightarrow>
          classical_loop to_matrix sorted_eig bs (energy_levels @ [sorted_eig (to_matrix H)]))"

definition classical_benchmark ::
  "(sparse_pauli_op \<Rightarrow> 'm) \<Rightarrow> ('m \<Rightarrow> 'v) \<Rightarrow> error option \<times> 'v list" where
  "classical_benchmark to_matrix sorted_eig =
     classical_loop to_matrix sorted_eig (py_range 0 (int (length b_list))) []"

text \<open>
  The quantum runs. The state of the notebook is the estimator's state, the cost
  dictionary and the list of results, one entry per completed run: the entry stands for
  the run's \<open>res\<close>, of which the notebook keeps \<open>res.fun\<close>. Every run starts from a
  random point, so each has a minimizer of its own (\<open>method b\<close> for the run of loop
  index \<open>b\<close>); the bound on the evaluations is the \<open>maxiter\<close> of the call, 100.
\<close>

record ('s, 'p, 'e) notebook =
  estimator_state :: 's
  cost_dict :: "('p, 'e) cost_dict"
  ground_state_energies :: "('p \<times> 'e) list list"

fun quantum_loop ::
  "'c \<Rightarrow> (sparse_pauli_op \<Rightarrow> 'h) \<Rightarrow> ('c, 'h, 'p, 'e, 's) estimator
     \<Rightarrow> (int \<Rightarrow> ('p \<times> 'e) list \<Rightarrow> 'p option) \<Rightarrow> int list \<Rightarrow> ('s, 'p, 'e) notebook
     \<Rightarrow> error option \<times> ('s, 'p, 'e) notebook" where
  "quantum_loop isa_ansatz apply_layout estimator method [] nb = (None, nb)"
| "quantum_loop isa_ansatz apply_layout estimator method (b # bs) nb =
     (case Hamiltonian J (of_int b) observables of
        Inl e \<Rightarrow> (Some e, nb)
      | Inr H \<Rightarrow>
          (case minimize (\<lambda>x. cost_fn x isa_ansatz (apply_layout H) estimator) (method b) 100 []
                  (estimator_state nb, cost_dict nb) of
             (Inl e, (s', d')) \<Rightarrow> (Some e, nb\<lparr>estimator_state := s', cost_dict := d'\<rparr>)
           | (Inr res, (s', d')) \<Rightarrow>
               quantum_loop isa_ansatz apply_layout estimator method bs
                 (nb\<lparr>estimator_state := s', cost_dict := d',
                     ground_state_energies := ground_state_energies nb @ [res]\<rparr>)))"

definition quantum_runs ::
  "'c \<Rightarrow> (sparse_pauli_op \<Rightarrow> 'h) \<Rightarrow> ('c, 'h, 'p, 'e, 's) estimator
     \<Rightarrow> (int \<Rightarrow> ('p \<times> 'e) list \<Rightarrow> 'p option) \<Rightarrow> 's
     \<Rightarrow> error option \<times> ('s, 'p, 'e) notebook" where
  "quantum_runs isa_ansatz apply_layout estimator method s =
     quantum_loop isa_ansatz apply_layout estimator method (py_range 0 (int (length b_list)))
       \<lparr>estimator_state = s, cost_dict = cost_history_dict, ground_state_energies = []\<rparr>"

text \<open>The plot pairs the values of \<open>b_list\<close> with the computed energies, position by position.\<close>

definition plot_points :: "'v list \<Rightarrow> (real \<times> 'v) list" where
  "plot_points energies = zip b_list energies"

section \<open>Operators as matrices\<close>

text \<open>
  The matrix of an operator, as the external library computes it: a label is the
  Kronecker product of its Pauli matrices, leftmost letter first, and an operator is the
  weighted sum of its labels. A number is an eigenvalue when some vector other than zero
  is scaled by it.
\<close>

type_synonym matrix = "complex list list"

definition pauli_matrix :: "char \<Rightarrow> matrix" where
  "pauli_matrix c =
     (if c = CHR ''I'' then [[1, 0], [0, 1]]
      else if c = CHR ''X'' then [[0, 1], [1, 0]]
      else if c = CHR ''Y'' then [[0, - \<i>], [\<i>, 0]]
      else if c = CHR ''Z'' then [[1, 0], [0, - 1]]
      else [])"

definition kron :: "matrix \<Rightarrow> matrix \<Rightarrow> matrix" where
  "kron A B =
     concat (map (\<lambda>ra. map (\<lambda>rb. concat (map (\<lambda>a. map (\<lambda>b. a * b) rb) ra)) B) A)"

fun label_matrix :: "string \<Rightarrow> matrix" where
  "label_matrix [] = [[1]]"
| "label_matrix (c # cs) = kron (pauli_matrix c) (label_matrix cs)"

definition mat_add :: "matrix \<Rightarrow> matrix \<Rightarrow> matrix" where
  "mat_add A B = map2 (\<lambda>ra rb. map2 (+) ra rb) A B"

definition mat_scale :: "complex \<Rightarrow> matrix \<Rightarrow> matrix" where
  "mat_scale c A = map (map (\<lambda>a. c * a)) A"

fun SparsePauliOp_to_matrix :: "sparse_pauli_op \<Rightarrow> matrix" where
  "SparsePauliOp_to_matrix [] = []"
| "SparsePauliOp_to_matrix [(label, c)] = mat_scale c (label_matrix label)"
| "SparsePauliOp_to_matrix ((label, c) # terms) =
     mat_add (mat_scale c (label_matrix label)) (SparsePauliOp_to_matrix terms)"

definition mat_vec :: "matrix \<Rightarrow> complex list \<Rightarrow> complex list" where
  "mat_vec A v = map (\<lambda>row. sum_list (map2 (*) row v)) A"

definition eigenvalue :: "matrix \<Rightarrow> complex \<Rightarrow> bool" where
  "eigenvalue A ev =
     (\<exists>v. length v = length A \<and> v \<noteq> replicate (length A) 0
          \<and> mat_vec A v = map (\<lambda>x. ev * x) v)"

section \<open>Stand-ins for the external collaborators\<close>

text \<open>
  Energies are floating-point numbers, which may be infinite or not a number. The
  estimators and the minimizer below are used to run the drivers on concrete inputs.
\<close>

datatype py_float = Float real | PosInf | NegInf | NaN

definition recording_estimator :: "('c, 'h, 'p, int, 'h list) estimator" where
  "recording_estimator circ hamiltonian params received = (Inr 0, received @ [hamiltonian])"

definition single_evaluation :: "int \<Rightarrow> (int \<times> 'e) list \<Rightarrow> int option" where
  "single_evaluation b seen = (if seen = [] then Some b else None)"

definition nan_estimator :: "('c, 'h, 'p, py_float, nat) estimator" where
  "nan_estimator circ hamiltonian params requests = (Inr NaN, Suc requests)"

definition failing_estimator :: "('c, 'h, 'p, py_float, nat) estimator" where
  "failing_estimator circ hamiltonian params requests =
     (Inl (ExternalError ''job failed''), Suc requests)"

definition fresh_notebook :: "'s \<Rightarrow> ('s, 'p, 'e) notebook" where
  "fresh_notebook s =
     \<lparr>estimator_state = s, cost_dict = cost_history_dict, ground_state_energies = []\<rparr>"

section \<open>Closed forms and invariants used in the proofs\<close>

text \<open>The operator that \<open>Hamiltonian\<close> builds from the notebook's \<open>J\<close> and \<open>observables\<close>.\<close>

definition ising_op :: "complex \<Rightarrow> sparse_pauli_op" where
  "ising_op b =
     (if b = 0 then [(''ZZ'', - 1), (''II'', 0)]
      else [(''ZZ'', - 1), (''IX'', b), (''XI'', b)])"

definition emits :: "stmt \<Rightarrow> nat \<Rightarrow> circuit_instruction list \<Rightarrow> bool" where
  "emits s N gs = (\<forall>qc. num_qubits qc = N \<longrightarrow> s qc = (None, qc\<lparr>data := data qc @ gs\<rparr>))"

definition gate :: "operation \<Rightarrow> int list \<Rightarrow> circuit_instruction" where
  "gate g qs = CircuitInstruction g (map nat qs) []"

definition phi_elem :: "int \<Rightarrow> parameter" where
  "phi_elem j = ParameterVectorElement ''phi'' (nat j)"

definition base_gates :: "int \<Rightarrow> circuit_instruction list" where
  "base_gates n =
     [gate XGate [0],
      gate (RYGate (Par (phi_elem 1))) [1],
      gate CZGate [0, 1],
      gate (RYGate (Neg (phi_elem 1))) [1],
      gate CXGate [1, 0],
      gate CXGate [1, n],
      gate CXGate [0, n + 1]]"

definition W_gates :: "int \<Rightarrow> int \<Rightarrow> circuit_instruction list" where
  "W_gates i q =
     gate XGate [q]
     # concat (map (\<lambda>j. [gate (RYGate (Par (phi_elem (j - 1)))) [j],
                           gate CZGate [j - 1, j],
                           gate (RYGate (Neg (phi_elem (j - 1)))) [j]])
                (py_range (q + 1) (q + i)))
     @ map (\<lambda>j. gate CXGate [j, j - 1]) (py_range (q + 1) (q + i))"

definition W_stage_gates :: "int \<Rightarrow> circuit_instruction list" where
  "W_stage_gates n = concat (map (\<lambda>i. W_gates i (n * (i - 1))) (py_range 3 (n + 1)))"

definition swap_triples :: "int \<Rightarrow> (int \<times> int \<times> int) list" where
  "swap_triples n =
     concat (map (\<lambda>k. concat (map (\<lambda>v. map (\<lambda>p. (k, v, p)) (py_range 1 k)) (py_range 1 k)))
                 (py_range 3 (n + 1)))"

definition cswap_gate :: "int \<Rightarrow> int \<times> int \<times> int \<Rightarrow> circuit_instruction" where
  "cswap_gate n t =
     (case t of (k, v, p) \<Rightarrow>
        (case cswap_operands n k v p of (c, t1, t2) \<Rightarrow> gate CSwapGate [c, t1, t2]))"

definition cswap_gates :: "int \<Rightarrow> circuit_instruction list" where
  "cswap_gates n = map (cswap_gate n) (swap_triples n)"

definition measure_gates :: "nat \<Rightarrow> nat \<Rightarrow> circuit_instruction list" where
  "measure_gates N c0 =
     CircuitInstruction Barrier [0..<N] []
     # map (\<lambda>i. CircuitInstruction Measure [i] [c0 + i]) [0..<N]"

definition ansatz_gates :: "int \<Rightarrow> circuit_instruction list" where
  "ansatz_gates n =
     base_gates n @ W_stage_gates n @ cswap_gates n @ measure_gates (nat (n ^ 2)) 0"

definition well_formed :: "quantum_circuit \<Rightarrow> bool" where
  "well_formed qc =
     list_all (\<lambda>g. list_all (\<lambda>q. q < num_qubits qc) (qubits g) \<and> distinct (qubits g)) (data qc)"

definition preserves :: "stmt \<Rightarrow> bool" where
  "preserves s =
     (\<forall>qc. num_qubits (snd (s qc)) = num_qubits qc
           \<and> (well_formed qc \<longrightarrow> well_formed (snd (s qc))))"

fun expression_parameter :: "parameter_expression \<Rightarrow> parameter" where
  "expression_parameter (Par t) = t"
| "expression_parameter (Neg t) = t"

fun operation_parameters :: "operation \<Rightarrow> parameter list" where
  "operation_parameters (RYGate e) = [expression_parameter e]"
| "operation_parameters g = []"

definition parameters :: "quantum_circuit \<Rightarrow> parameter list" where
  "parameters qc = remdups (concat (map (\<lambda>g. operation_parameters (operation g)) (data qc)))"

definition num_parameters :: "quantum_circuit \<Rightarrow> nat" where
  "num_parameters qc = length (parameters qc)"

definition cswaps :: "quantum_circuit \<Rightarrow> circuit_instruction list" where
  "cswaps qc = filter (\<lambda>g. operation g = CSwapGate) (data qc)"

definition used_upto :: "int \<Rightarrow> int \<Rightarrow> int set" where
  "used_upto n m = {1} \<union> (\<Union>i\<in>{3..m}. {n * (i - 1)..<n * (i - 1) + (i - 1)})"

definition gate_params :: "circuit_instruction list \<Rightarrow> parameter set" where
  "gate_params gs = (\<Union>g\<in>set gs. set (operation_parameters (operation g)))"

section \<open>Properties of the circuit layer\<close>

lemma set_py_range: "set (py_range a b) = {a..<b}"
  by (auto simp: py_range_def)

lemma py_index_ok: "0 \<le> i \<Longrightarrow> i < int len \<Longrightarrow> py_index len i = Inr (nat i)"
  by (simp add: py_index_def)

lemma convert_all_ok:
  "\<forall>q\<in>set qs. 0 \<le> q \<and> q < int (num_qubits qc) \<Longrightarrow> convert_all qc qs = Inr (map nat qs)"
  by (induction qs) (simp_all add: qbit_argument_conversion_def py_index_ok)

lemma distinct_map_nat: "\<forall>q\<in>set qs. 0 \<le> q \<Longrightarrow> distinct qs \<Longrightarrow> distinct (map nat qs)"
  by (auto simp: distinct_map inj_on_def eq_nat_nat_iff)

lemma emits_append_gate:
  assumes "\<forall>q\<in>set qs. 0 \<le> q \<and> q < int N" and "distinct qs"
  shows "emits (append_gate g qs) N [gate g qs]"
  unfolding emits_def
proof (intro allI impI)
  fix qc :: quantum_circuit
  assume N: "num_qubits qc = N"
  from assms(1) N have "convert_all qc qs = Inr (map nat qs)"
    by (simp add: convert_all_ok)
  moreover from assms have "distinct (map nat qs)"
    by (simp add: distinct_map_nat)
  ultimately show "append_gate g qs qc = (None, qc\<lparr>data := data qc @ [gate g qs]\<rparr>)"
    by (simp add: append_gate_def gate_def)
qed

lemma emits_with_item:
  assumes "0 \<le> j" and "j < int L" and "emits (k (ParameterVectorElement nm (nat j))) N gs"
  shows "emits (with_item (ParameterVector nm L) j k) N gs"
  using assms by (simp add: emits_def with_item_def getitem_def py_index_ok)

lemma emits_block_Nil: "emits (block []) N []"
  by (simp add: emits_def)

lemma emits_block_Cons:
  assumes "emits s N gs" and "emits (block ss) N hs"
  shows "emits (block (s # ss)) N (gs @ hs)"
  using assms by (simp add: emits_def)

lemma emits_for_loop:
  assumes "\<forall>x\<in>set xs. emits (body x) N (g x)"
  shows "emits (for_loop xs body) N (concat (map g xs))"
  using assms unfolding for_loop_def
proof (induction xs)
  case Nil
  show ?case by (simp add: emits_def)
next
  case (Cons x xs)
  then have "emits (block (body x # map body xs)) N (g x @ concat (map g xs))"
    by (intro emits_block_Cons) simp_all
  then show ?case by (simp del: block.simps)
qed

lemma measure_all_eq:
  "measure_all qc =
     (None, qc\<lparr>num_clbits := num_clbits qc + num_qubits qc,
                data := data qc @ measure_gates (num_qubits qc) (num_clbits qc)\<rparr>)"
  by (simp add: measure_all_def measure_gates_def Let_def)

lemma cell_bounds:
  fixes n r c :: int
  assumes "0 \<le> r" "r < n" "0 \<le> c" "c < n"
  shows "0 \<le> n * r + c" and "n * r + c < n * n"
proof -
  from assms have n: "0 \<le> n" by simp
  with assms show "0 \<le> n * r + c" by simp
  from assms have "r \<le> n - 1" by simp
  with n have "n * r \<le> n * (n - 1)" by (rule mult_left_mono[rotated])
  then have "n * r \<le> n * n - n" by (simp add: algebra_simps)
  with assms show "n * r + c < n * n" by simp
qed

lemma cell_row:
  fixes n r c :: int
  assumes "0 \<le> c" "c < n"
  shows "(n * r + c) div n = r"
  using assms by (simp add: div_pos_pos_trivial)

lemma cell_inj:
  fixes n r c r' c' :: int
  assumes "0 \<le> c" "c < n" "0 \<le> c'" "c' < n" "n * r + c = n * r' + c'"
  shows "r = r' \<and> c = c'"
proof -
  have "r = (n * r + c) div n"
    using assms(1,2) by (simp only: cell_row)
  also have "\<dots> = (n * r' + c') div n"
    by (simp only: assms(5))
  also have "\<dots> = r'"
    using assms(3,4) by (simp only: cell_row)
  finally have "r = r'" .
  with assms(5) show ?thesis by simp
qed

lemma emits_base_circuit:
  assumes "2 \<le> n" and "int N = n * n"
  shows "emits (base_circuit n (ParameterVector ''phi'' N)) N (base_gates n)"
proof -
  from assms(1) have "n * 2 \<le> n * n" by (intro mult_left_mono) simp_all
  with assms(1) have "n + 1 < n * n" by linarith
  with assms have big: "n + 1 < int N" "1 < int N" "0 < int N" by simp_all
  note one = emits_append_gate[where N = N]
  have "emits (block
     [QC_x 0,
      with_item (ParameterVector ''phi'' N) 1 (\<lambda>t. QC_ry (Par t) 1),
      QC_cz 0 1,
      with_item (ParameterVector ''phi'' N) 1 (\<lambda>t. QC_ry (Neg t) 1),
      QC_cx 1 0,
      QC_cx 1 n,
      QC_cx 0 (n + 1)]) N
     ([gate XGate [0]] @ [gate (RYGate (Par (phi_elem 1))) [1]] @ [gate CZGate [0, 1]]
       @ [gate (RYGate (Neg (phi_elem 1))) [1]] @ [gate CXGate [1, 0]]
       @ [gate CXGate [1, n]] @ [gate CXGate [0, n + 1]] @ [])"
    unfolding QC_x_def QC_ry_def QC_cz_def QC_cx_def phi_elem_def
    using big assms(1)
    by (intro emits_block_Cons emits_block_Nil emits_with_item one) simp_all
  then show ?thesis by (simp add: base_circuit_def base_gates_def)
qed

lemma emits_W_circuit:
  assumes "0 \<le> q" and "1 \<le> i" and "q + i \<le> int N"
  shows "emits (W_circuit i q (ParameterVector ''phi'' N)) N (W_gates i q)"
proof -
  note one = emits_append_gate[where N = N]
  have x: "emits (QC_x q) N [gate XGate [q]]"
    unfolding QC_x_def using assms by (intro one) simp_all
  have rot: "emits (block
        [with_item (ParameterVector ''phi'' N) (j - 1) (\<lambda>t. QC_ry (Par t) j),
         QC_cz (j - 1) j,
         with_item (ParameterVector ''phi'' N) (j - 1) (\<lambda>t. QC_ry (Neg t) j)]) N
       ([gate (RYGate (Par (phi_elem (j - 1)))) [j]] @ [gate CZGate [j - 1, j]]
         @ [gate (RYGate (Neg (phi_elem (j - 1)))) [j]] @ [])"
    if "j \<in> set (py_range (q + 1) (q + i))" for j
    unfolding QC_ry_def QC_cz_def phi_elem_def
    using that assms
    by (intro emits_block_Cons emits_block_Nil emits_with_item one)
       (simp_all add: set_py_range)
  have fold: "emits (QC_cx j (j - 1)) N [gate CXGate [j, j - 1]]"
    if "j \<in> set (py_range (q + 1) (q + i))" for j
    unfolding QC_cx_def using that assms by (intro one) (simp_all add: set_py_range)
  have "emits (block
     [QC_x q,
      for_loop (py_range (q + 1) (q + i)) (\<lambda>j. block
        [with_item (ParameterVector ''phi'' N) (j - 1) (\<lambda>t. QC_ry (Par t) j),
         QC_cz (j - 1) j,
         with_item (ParameterVector ''phi'' N) (j - 1) (\<lambda>t. QC_ry (Neg t) j)]),
      for_loop (py_range (q + 1) (q + i)) (\<lambda>j. QC_cx j (j - 1))]) N
     ([gate XGate [q]]
      @ concat (map (\<lambda>j. [gate (RYGate (Par (phi_elem (j - 1)))) [j]] @ [gate CZGate [j - 1, j]]
         @ [gate (RYGate (Neg (phi_elem (j - 1)))) [j]] @ []) (py_range (q + 1) (q + i)))
      @ concat (map (\<lambda>j. [gate CXGate [j, j - 1]]) (py_range (q + 1) (q + i))) @ [])"
    by (intro emits_block_Cons emits_block_Nil emits_for_loop ballI x rot fold)
  then show ?thesis by (simp add: W_circuit_def W_gates_def concat_map_singleton)
qed

lemma emits_W_stage:
  assumes "int N = n * n"
  shows "emits (W_stage n (ParameterVector ''phi'' N)) N (W_stage_gates n)"
  unfolding W_stage_def W_stage_gates_def
proof (intro emits_for_loop ballI emits_W_circuit)
  fix i assume "i \<in> set (py_range 3 (n + 1))"
  then have i: "3 \<le> i" "i \<le> n" by (simp_all add: set_py_range)
  then show "1 \<le> i" by simp
  from i have b: "0 \<le> n * (i - 1) + (i - 1)" "n * (i - 1) + (i - 1) < n * n"
    by (intro cell_bounds; simp)+
  from i show "0 \<le> n * (i - 1)" by simp
  from b assms show "n * (i - 1) + i \<le> int N" by simp
qed

lemma emits_cswap:
  assumes "int N = n * n" and "3 \<le> k" "k \<le> n" "1 \<le> v" "v < k" "1 \<le> p" "p < k"
  shows "emits (case cswap_operands n k v p of (c, t1, t2) \<Rightarrow> QC_cswap c t1 t2) N
           [cswap_gate n (k, v, p)]"
proof -
  have c: "0 \<le> n * (k - 1) + (v - 1)" "n * (k - 1) + (v - 1) < n * n"
    using assms by (intro cell_bounds; simp)+
  have t1: "0 \<le> n * (p - 1) + (k - 1)" "n * (p - 1) + (k - 1) < n * n"
    using assms by (intro cell_bounds; simp)+
  have t2: "0 \<le> n * (p - 1) + (v - 1)" "n * (p - 1) + (v - 1) < n * n"
    using assms by (intro cell_bounds; simp)+
  have d1: "n * (k - 1) + (v - 1) \<noteq> n * (p - 1) + (k - 1)"
    using cell_inj[of "v - 1" n "k - 1" "k - 1" "p - 1"] assms by auto
  have d2: "n * (k - 1) + (v - 1) \<noteq> n * (p - 1) + (v - 1)"
    using cell_inj[of "v - 1" n "v - 1" "k - 1" "p - 1"] assms by auto
  have d3: "n * (p - 1) + (k - 1) \<noteq> n * (p - 1) + (v - 1)"
    using assms by simp
  have ops: "cswap_operands n k v p =
      (n * (k - 1) + (v - 1), n * (p - 1) + (k - 1), n * (p - 1) + (v - 1))"
    by (simp add: cswap_operands_def)
  have "emits (QC_cswap (n * (k - 1) + (v - 1)) (n * (p - 1) + (k - 1)) (n * (p - 1) + (v - 1))) N
     [gate CSwapGate [n * (k - 1) + (v - 1), n * (p - 1) + (k - 1), n * (p - 1) + (v - 1)]]"
    unfolding QC_cswap_def using c t1 t2 d1 d2 d3 assms(1)
    by (intro emits_append_gate) simp_all
  then show ?thesis by (simp add: ops cswap_gate_def)
qed

lemma emits_cswap_stage:
  assumes "int N = n * n"
  shows "emits (cswap_stage n) N (cswap_gates n)"
proof -
  have "emits (cswap_stage n) N
     (concat (map (\<lambda>k. concat (map (\<lambda>v. concat (map (\<lambda>p. [cswap_gate n (k, v, p)])
        (py_range 1 k))) (py_range 1 k))) (py_range 3 (n + 1))))"
    unfolding cswap_stage_def
    by (intro emits_for_loop ballI emits_cswap assms) (simp_all add: set_py_range)
  then show ?thesis
    by (simp add: cswap_gates_def swap_triples_def map_concat concat_map_singleton comp_def)
qed

lemma ansatz_eq:
  assumes "2 \<le> n"
  shows "ansatz n =
    (None, \<lparr>num_qubits = nat (n ^ 2), num_clbits = nat (n ^ 2), data = ansatz_gates n\<rparr>)"
proof -
  define N where "N = nat (n ^ 2)"
  have N: "int N = n * n" by (simp add: N_def power2_eq_square)
  have "emits (block [base_circuit n (ParameterVector ''phi'' N),
                      W_stage n (ParameterVector ''phi'' N), cswap_stage n]) N
          (base_gates n @ W_stage_gates n @ cswap_gates n @ [])"
    by (intro emits_block_Cons emits_block_Nil emits_base_circuit emits_W_stage
          emits_cswap_stage assms N)
  then have three: "block [base_circuit n (ParameterVector ''phi'' N),
                      W_stage n (ParameterVector ''phi'' N), cswap_stage n] (QuantumCircuit N)
     = (None, \<lparr>num_qubits = N, num_clbits = 0,
              data = base_gates n @ W_stage_gates n @ cswap_gates n\<rparr>)"
    by (simp add: emits_def QuantumCircuit_def del: block.simps)
  have split: "block [a, b, c, d] qc =
     (case block [a, b, c] qc of (None, qc') \<Rightarrow> d qc' | (Some e, qc') \<Rightarrow> (Some e, qc'))"
    for a b c d :: stmt and qc
    by (simp split: prod.splits option.splits)
  show ?thesis
    unfolding ansatz_def phi_def ansatz_num_qubits_def N_def[symmetric] split three
    by (simp add: measure_all_eq ansatz_gates_def N_def)
qed

lemma convert_all_range:
  "convert_all qc qs = Inr bs \<Longrightarrow> list_all (\<lambda>q. q < num_qubits qc) bs"
proof (induction qs arbitrary: bs)
  case Nil
  then show ?case by simp
next
  case (Cons q qs)
  then show ?case
    by (auto simp: qbit_argument_conversion_def py_index_def Let_def
             split: sum.splits if_splits)
qed

lemma preserves_append_gate: "preserves (append_gate g qs)"
  by (auto simp: preserves_def append_gate_def well_formed_def dest: convert_all_range
           split: sum.splits)

lemma preserves_with_item: "(\<And>t. preserves (k t)) \<Longrightarrow> preserves (with_item theta j k)"
  by (auto simp: preserves_def with_item_def split: sum.splits)

lemma preserves_block: "(\<And>s. s \<in> set ss \<Longrightarrow> preserves s) \<Longrightarrow> preserves (block ss)"
proof (induction ss)
  case Nil
  show ?case by (simp add: preserves_def)
next
  case (Cons s ss)
  then have s: "preserves s" and ss: "preserves (block ss)" by simp_all
  show ?case
    unfolding preserves_def
  proof (intro allI)
    fix qc
    obtain r qc' where r: "s qc = (r, qc')" by (cases "s qc")
    from s r have 1: "num_qubits qc' = num_qubits qc" "well_formed qc \<longrightarrow> well_formed qc'"
      by (auto simp: preserves_def dest: spec[of _ qc])
    from ss have 2: "num_qubits (snd (block ss qc')) = num_qubits qc'"
        "well_formed qc' \<longrightarrow> well_formed (snd (block ss qc'))"
      by (auto simp: preserves_def)
    from r 1 2 show "num_qubits (snd (block (s # ss) qc)) = num_qubits qc \<and>
          (well_formed qc \<longrightarrow> well_formed (snd (block (s # ss) qc)))"
      by (cases r) simp_all
  qed
qed

lemma preserves_for_loop: "(\<And>x. preserves (body x)) \<Longrightarrow> preserves (for_loop xs body)"
  unfolding for_loop_def by (rule preserves_block) auto

lemma preserves_measure_all: "preserves measure_all"
  by (auto simp: preserves_def measure_all_def Let_def well_formed_def list_all_iff)

lemma well_formed_ansatz: "well_formed (snd (ansatz n))"
proof -
  have "preserves (block [base_circuit n phi, W_stage n phi, cswap_stage n, measure_all])" for phi
    unfolding base_circuit_def W_stage_def W_circuit_def cswap_stage_def
      QC_x_def QC_ry_def QC_cz_def QC_cx_def QC_cswap_def
    by (intro preserves_block preserves_for_loop)
       (auto intro!: preserves_block preserves_for_loop preserves_with_item preserves_append_gate
          preserves_measure_all split: prod.splits)
  moreover have "well_formed (QuantumCircuit N)" for N
    by (simp add: well_formed_def QuantumCircuit_def)
  ultimately show ?thesis
    by (simp add: ansatz_def preserves_def del: block.simps)
qed

lemma num_qubits_ansatz: "num_qubits (snd (ansatz n)) = nat (n ^ 2)"
proof -
  have "preserves (block [base_circuit n phi, W_stage n phi, cswap_stage n, measure_all])" for phi
    unfolding base_circuit_def W_stage_def W_circuit_def cswap_stage_def
      QC_x_def QC_ry_def QC_cz_def QC_cx_def QC_cswap_def
    by (intro preserves_block preserves_for_loop)
       (auto intro!: preserves_block preserves_for_loop preserves_with_item preserves_append_gate
          preserves_measure_all split: prod.splits)
  then show ?thesis
    by (simp add: ansatz_def ansatz_num_qubits_def preserves_def QuantumCircuit_def
          del: block.simps)
qed

lemma gate_params_append: "gate_params (gs @ hs) = gate_params gs \<union> gate_params hs"
  by (auto simp: gate_params_def)

lemma gate_params_base: "gate_params (base_gates n) = {phi_elem 1}"
  by (simp add: gate_params_def base_gates_def gate_def)

lemma gate_params_W: "gate_params (W_gates i q) = phi_elem ` {q..<q + (i - 1)}"
proof -
  have "gate_params (W_gates i q) = (\<Union>j\<in>{q + 1..<q + i}. {phi_elem (j - 1)})"
    by (auto simp: gate_params_def W_gates_def gate_def set_py_range)
  also have "\<dots> = phi_elem ` (\<lambda>j. j - 1) ` {q + 1..<q + i}"
    by auto
  also have "(\<lambda>j. j - 1) ` {q + 1..<q + i} = {q..<q + (i - 1)}"
  proof -
    have "x \<in> (\<lambda>j. j - 1) ` {q + 1..<q + i}" if "q \<le> x" "x < q + (i - 1)" for x
      using that by (intro image_eqI[where x = "x + 1"]) simp_all
    then show ?thesis by auto
  qed
  finally show ?thesis .
qed

lemma gate_params_W_stage:
  "gate_params (W_stage_gates n) = phi_elem ` (\<Union>i\<in>{3..n}. {n * (i - 1)..<n * (i - 1) + (i - 1)})"
proof -
  have "gate_params (W_stage_gates n) = (\<Union>i\<in>{3..n}. gate_params (W_gates i (n * (i - 1))))"
    by (auto simp: gate_params_def W_stage_gates_def set_py_range)
  then show ?thesis by (simp add: gate_params_W image_UN)
qed

lemma gate_params_cswap: "gate_params (cswap_gates n) = {}"
  by (auto simp: gate_params_def cswap_gates_def cswap_gate_def gate_def split: prod.splits)

lemma gate_params_measure: "gate_params (measure_gates N c) = {}"
  by (auto simp: gate_params_def measure_gates_def)

lemma gate_params_ansatz: "gate_params (ansatz_gates n) = phi_elem ` used_upto n n"
  by (simp add: ansatz_gates_def gate_params_append gate_params_base gate_params_W_stage
        gate_params_cswap gate_params_measure used_upto_def image_Un)

lemma set_parameters: "set (parameters qc) = gate_params (data qc)"
  by (simp add: parameters_def gate_params_def)

lemma used_upto_step:
  assumes "2 \<le> m"
  shows "used_upto n (m + 1) = used_upto n m \<union> {n * m..<n * m + m}"
proof -
  from assms have "{3..m + 1} = insert (m + 1) {3..m}" by auto
  then show ?thesis by (auto simp: used_upto_def)
qed

lemma used_upto_props:
  assumes "2 \<le> m" and "m \<le> n"
  shows "finite (used_upto n m) \<and> int (card (used_upto n m)) = m * (m - 1) div 2
         \<and> (\<forall>x\<in>used_upto n m. 0 \<le> x \<and> x < n * m)"
  using assms
proof (induction m rule: int_ge_induct)
  case base
  then have "used_upto n 2 = {1}" by (simp add: used_upto_def)
  with base show ?case by simp
next
  case (step m)
  then have IH: "finite (used_upto n m)" "int (card (used_upto n m)) = m * (m - 1) div 2"
      "\<forall>x\<in>used_upto n m. 0 \<le> x \<and> x < n * m"
    by simp_all
  from step have mn: "2 \<le> m" "m < n" by simp_all
  have eq: "used_upto n (m + 1) = used_upto n m \<union> {n * m..<n * m + m}"
    using mn by (simp add: used_upto_step)
  have disj: "used_upto n m \<inter> {n * m..<n * m + m} = {}"
    using IH(3) by auto
  have "int (card (used_upto n (m + 1))) = m * (m - 1) div 2 + m"
    using IH mn by (simp add: eq card_Un_disjoint disj)
  also have "\<dots> = (m * (m - 1) + 2 * m) div 2" by simp
  also have "m * (m - 1) + 2 * m = (m + 1) * (m + 1 - 1)" by (simp add: algebra_simps)
  finally have card: "int (card (used_upto n (m + 1))) = (m + 1) * (m + 1 - 1) div 2" .
  have nm: "0 \<le> n * m" using mn by simp
  have bound: "\<forall>x\<in>used_upto n (m + 1). 0 \<le> x \<and> x < n * (m + 1)"
  proof
    fix x assume "x \<in> used_upto n (m + 1)"
    then consider "x \<in> used_upto n m" | "n * m \<le> x" "x < n * m + m"
      by (auto simp: eq)
    then have "0 \<le> x \<and> x < n * m + n"
    proof cases
      case 1
      with IH(3) have "0 \<le> x" "x < n * m" by simp_all
      with mn show ?thesis by simp
    next
      case 2
      with mn nm show ?thesis by linarith
    qed
    then show "0 \<le> x \<and> x < n * (m + 1)" by (simp add: algebra_simps)
  qed
  from IH(1) card bound show ?case by (simp add: eq)
qed

lemma inj_on_phi_elem: "\<forall>x\<in>S. 0 \<le> x \<Longrightarrow> inj_on phi_elem S"
  by (auto simp: inj_on_def phi_elem_def eq_nat_nat_iff)

lemma num_parameters_ansatz:
  assumes "2 \<le> n"
  shows "int (num_parameters (snd (ansatz n))) = n * (n - 1) div 2"
proof -
  from assms have props: "finite (used_upto n n)" "int (card (used_upto n n)) = n * (n - 1) div 2"
      "\<forall>x\<in>used_upto n n. 0 \<le> x \<and> x < n * n"
    using used_upto_props[of n n] by simp_all
  have "num_parameters (snd (ansatz n)) = card (set (parameters (snd (ansatz n))))"
    by (simp add: num_parameters_def parameters_def length_remdups_card_conv)
  also have "\<dots> = card (phi_elem ` used_upto n n)"
    using assms by (simp add: set_parameters ansatz_eq gate_params_ansatz)
  also have "\<dots> = card (used_upto n n)"
    using props(3) by (intro card_image inj_on_phi_elem) simp
  finally show ?thesis using props(2) by simp
qed

lemma parameters_ansatz_range:
  assumes "2 \<le> n" and "t \<in> set (parameters (snd (ansatz n)))"
  shows "vector_name t = ''phi'' \<and> int (index t) < n ^ 2"
proof -
  from assms have "t \<in> phi_elem ` used_upto n n"
    by (simp add: set_parameters ansatz_eq gate_params_ansatz)
  then obtain x where x: "x \<in> used_upto n n" "t = phi_elem x" by auto
  with used_upto_props[of n n] assms(1) have "0 \<le> x" "x < n * n" by simp_all
  with x(2) show ?thesis by (simp add: phi_elem_def power2_eq_square)
qed

lemma filter_none: "\<forall>g\<in>set gs. \<not> P g \<Longrightarrow> filter P gs = []"
  by (induction gs) simp_all

lemma cswaps_ansatz:
  assumes "2 \<le> n"
  shows "cswaps (snd (ansatz n)) = map (cswap_gate n) (swap_triples n)"
proof -
  have 1: "filter (\<lambda>g. operation g = CSwapGate) (base_gates n) = []"
    by (simp add: base_gates_def gate_def)
  have 2: "filter (\<lambda>g. operation g = CSwapGate) (W_stage_gates n) = []"
    by (intro filter_none) (auto simp: W_stage_gates_def W_gates_def gate_def)
  have 3: "filter (\<lambda>g. operation g = CSwapGate) (cswap_gates n) = cswap_gates n"
    by (intro filter_True) (auto simp: cswap_gates_def cswap_gate_def gate_def split: prod.splits)
  have 4: "filter (\<lambda>g. operation g = CSwapGate) (measure_gates N c) = []" for N c
    by (intro filter_none) (auto simp: measure_gates_def)
  have "cswaps (snd (ansatz n)) = cswap_gates n"
    using assms by (simp add: cswaps_def ansatz_eq ansatz_gates_def 1 2 3 4)
  then show ?thesis by (simp add: cswap_gates_def)
qed

lemma set_swap_triples:
  "set (swap_triples n) = {(k, v, p). 3 \<le> k \<and> k \<le> n \<and> 1 \<le> v \<and> v \<le> k - 1 \<and> 1 \<le> p \<and> p \<le> k - 1}"
  by (fastforce simp: swap_triples_def set_py_range image_iff)

lemma distinct_concat_map:
  assumes "distinct xs"
    and "\<And>x. x \<in> set xs \<Longrightarrow> distinct (f x)"
    and "\<And>x y. x \<in> set xs \<Longrightarrow> y \<in> set xs \<Longrightarrow> x \<noteq> y \<Longrightarrow> set (f x) \<inter> set (f y) = {}"
  shows "distinct (concat (map f xs))"
  using assms
proof (induction xs)
  case Nil
  show ?case by simp
next
  case (Cons x xs)
  have "set (f x) \<inter> set (f y) = {}" if "y \<in> set xs" for y
    using Cons.prems(1) that by (intro Cons.prems(3)) auto
  moreover have "distinct (concat (map f xs))"
    using Cons.prems by (intro Cons.IH) auto
  ultimately show ?case using Cons.prems(2)[of x] by auto
qed

lemma distinct_py_range: "distinct (py_range a b)"
  by (simp add: py_range_def)

lemma distinct_swap_triples: "distinct (swap_triples n)"
  unfolding swap_triples_def
  by (intro distinct_concat_map distinct_py_range)
     (auto simp: distinct_map inj_on_def distinct_py_range)

lemma ansatz_small:
  "ansatz 1 = (Some IndexError, \<lparr>num_qubits = 1, num_clbits = 0,
                 data = [CircuitInstruction XGate [0] []]\<rparr>)"
  "ansatz (- 1) = (Some IndexError, \<lparr>num_qubits = 1, num_clbits = 0,
                 data = [CircuitInstruction XGate [0] []]\<rparr>)"
  "ansatz 0 = (Some CircuitError, \<lparr>num_qubits = 0, num_clbits = 0, data = []\<rparr>)"
  by code_simp+

lemma ansatz_negative:
  assumes "n \<le> - 2"
  shows "fst (ansatz n) = None"
proof -
  define N where "N = nat (n ^ 2)"
  have N: "int N = n * n" by (simp add: N_def power2_eq_square)
  from assms have "n * n + n = (- n) * (- n - 1)" by (simp add: algebra_simps)
  moreover from assms have "2 * 1 \<le> (- n) * (- n - 1)" by (intro mult_mono) simp_all
  ultimately have big: "2 \<le> n * n + n" by simp
  have empty: "py_range 3 (n + 1) = []" using assms by (simp add: py_range_def)
  have idx: "py_index N 0 = Inr 0" "py_index N 1 = Inr 1"
      "py_index N n = Inr (nat (n * n + n))" "py_index N (n + 1) = Inr (nat (n * n + n + 1))"
    using assms big N by (simp_all add: py_index_def Let_def)
  have ne: "nat (n * n + n) \<noteq> 1" "nat (n * n + n + 1) \<noteq> 0"
    using big by simp_all
  show ?thesis
    unfolding ansatz_def phi_def ansatz_num_qubits_def N_def[symmetric]
    using idx ne
    by (simp add: base_circuit_def W_stage_def cswap_stage_def empty for_loop_def
          QC_x_def QC_ry_def QC_cz_def QC_cx_def append_gate_def with_item_def getitem_def
          qbit_argument_conversion_def QuantumCircuit_def measure_all_def Let_def)
qed

section \<open>Claims about the ansatz\<close>

text \<open>
  Claim C1. As stated (the number of distinct parameters consumed equals the declared
  length \<open>n\<^sup>2\<close>) it fails: for three cities the vector \<open>phi\<close> has nine elements and the
  gates use three of them.
\<close>

theorem ansatz_parameter_count_counterexample:
  "num_parameters (snd (ansatz 3)) = 3 \<and> pv_length (phi 3) = 9"
proof -
  have "int (num_parameters (snd (ansatz 3))) = 3"
    using num_parameters_ansatz[of 3] by simp
  then show ?thesis by (simp add: phi_def ansatz_num_qubits_def)
qed

text \<open>
  Claim C1, amended. For \<open>n \<ge> 3\<close> the construction completes, the declared vector has
  length \<open>n\<^sup>2\<close>, the gates use \<open>n (n - 1) / 2\<close> distinct parameters, namely \<open>phi[1]\<close> and
  \<open>phi[n (i - 1)], \<dots>, phi[n (i - 1) + i - 2]\<close> for \<open>i\<close> from 3 to \<open>n\<close>, and every parameter
  used is an element of the declared vector at an index below its length.
\<close>

theorem ansatz_parameters:
  assumes "3 \<le> n"
  shows "fst (ansatz n) = None
       \<and> pv_length (phi n) = nat (n ^ 2)
       \<and> int (num_parameters (snd (ansatz n))) = n * (n - 1) div 2
       \<and> set (map index (parameters (snd (ansatz n)))) =
           nat ` ({1} \<union> (\<Union>i\<in>{3..n}. {n * (i - 1)..n * (i - 1) + i - 2}))
       \<and> (\<forall>t\<in>set (parameters (snd (ansatz n))).
             vector_name t = pv_name (phi n) \<and> index t < pv_length (phi n))"
proof -
  from assms have n: "2 \<le> n" by simp
  have range: "vector_name t = pv_name (phi n) \<and> index t < pv_length (phi n)"
    if "t \<in> set (parameters (snd (ansatz n)))" for t
  proof -
    from parameters_ansatz_range[OF n that]
    have "vector_name t = ''phi''" and "int (index t) < n ^ 2" by simp_all
    then show ?thesis by (simp add: phi_def ansatz_num_qubits_def)
  qed
  have "{n * (i - 1)..n * (i - 1) + i - 2} = {n * (i - 1)..<n * (i - 1) + (i - 1)}" for i
    by auto
  then have "{1} \<union> (\<Union>i\<in>{3..n}. {n * (i - 1)..n * (i - 1) + i - 2}) = used_upto n n"
    by (simp add: used_upto_def)
  moreover have "set (map index (parameters (snd (ansatz n)))) = index ` phi_elem ` used_upto n n"
    using n by (simp add: set_parameters ansatz_eq gate_params_ansatz)
  moreover have "index ` phi_elem ` S = nat ` S" for S
    by (simp add: image_image phi_elem_def)
  ultimately have indices: "set (map index (parameters (snd (ansatz n)))) =
           nat ` ({1} \<union> (\<Union>i\<in>{3..n}. {n * (i - 1)..n * (i - 1) + i - 2}))"
    by simp
  from n have "fst (ansatz n) = None"
    by (simp add: ansatz_eq)
  moreover have "pv_length (phi n) = nat (n ^ 2)"
    by (simp add: phi_def ansatz_num_qubits_def)
  moreover from n have "int (num_parameters (snd (ansatz n))) = n * (n - 1) div 2"
    by (rule num_parameters_ansatz)
  ultimately show ?thesis using indices range by blast
qed

text \<open>The statement above at a concrete input.\<close>

theorem ansatz_parameters_witness:
  "fst (ansatz 5) = None \<and> num_parameters (snd (ansatz 5)) = 10 \<and> pv_length (phi 5) = 25"
proof -
  have "int (num_parameters (snd (ansatz 5))) = 10" "fst (ansatz 5) = None"
       "pv_length (phi 5) = nat (5 ^ 2)"
    using ansatz_parameters[of 5] by simp_all
  then show ?thesis by simp
qed

text \<open>
  Claim C2. For \<open>n \<ge> 3\<close> the controlled swaps of the built circuit are, in order, one per
  triple \<open>(k, v, p)\<close> with \<open>3 \<le> k \<le> n\<close> and \<open>1 \<le> v, p \<le> k - 1\<close>, each triple once; for
  \<open>n = 3\<close> these are the four triples of the single stage \<open>k = 3\<close> with \<open>v, p \<in> {1, 2}\<close>,
  so four controlled swaps.
\<close>

theorem cswap_stage_triples:
  assumes "3 \<le> n"
  shows "cswaps (snd (ansatz n)) = map (cswap_gate n) (swap_triples n)
       \<and> distinct (swap_triples n)
       \<and> set (swap_triples n) =
           {(k, v, p). 3 \<le> k \<and> k \<le> n \<and> 1 \<le> v \<and> v \<le> k - 1 \<and> 1 \<le> p \<and> p \<le> k - 1}
       \<and> (n = 3 \<longrightarrow> swap_triples n = [(3, 1, 1), (3, 1, 2), (3, 2, 1), (3, 2, 2)]
                     \<and> length (cswaps (snd (ansatz n))) = 4)"
proof -
  from assms have n: "2 \<le> n" by simp
  have three: "swap_triples 3 = [(3, 1, 1), (3, 1, 2), (3, 2, 1), (3, 2, 2)]"
    by code_simp
  from n have c: "cswaps (snd (ansatz n)) = map (cswap_gate n) (swap_triples n)"
    by (rule cswaps_ansatz)
  have "length (cswaps (snd (ansatz n))) = 4" if "n = 3"
    using c that by (simp add: three)
  with c three distinct_swap_triples[of n] set_swap_triples[of n] show ?thesis
    by blast
qed

text \<open>The statement above at a concrete input.\<close>

theorem cswap_stage_triples_witness:
  "length (cswaps (snd (ansatz 3))) = 4
   \<and> cswaps (snd (ansatz 3)) =
       [CircuitInstruction CSwapGate [6, 2, 0] [], CircuitInstruction CSwapGate [6, 5, 3] [],
        CircuitInstruction CSwapGate [7, 2, 1] [], CircuitInstruction CSwapGate [7, 5, 4] []]"
proof -
  have "swap_triples 3 = [(3, 1, 1), (3, 1, 2), (3, 2, 1), (3, 2, 2)]"
    and "cswaps (snd (ansatz 3)) = map (cswap_gate 3) (swap_triples 3)"
    and "length (cswaps (snd (ansatz 3))) = 4"
    using cswap_stage_triples[of 3] by simp_all
  then show ?thesis by (simp add: cswap_gate_def cswap_operands_def gate_def)
qed


text \<open>
  Claim C3. As stated it fails in both halves: for \<open>n = -1\<close> the flip on qubit 0 has been
  appended when the lookup \<open>theta[1]\<close> raises, and the positive input \<open>n = 1\<close> raises too.
\<close>

theorem ansatz_validation_counterexample:
  "ansatz (- 1) = (Some IndexError, \<lparr>num_qubits = 1, num_clbits = 0,
                    data = [CircuitInstruction XGate [0] []]\<rparr>)
   \<and> fst (ansatz 1) = Some IndexError"
  by (simp add: ansatz_small)

text \<open>
  Claim C3, amended. The input is not validated. The construction completes for every
  \<open>n \<ge> 2\<close> and for every \<open>n \<le> -2\<close>; for \<open>n = 1\<close> and \<open>n = -1\<close> it raises IndexError after
  the first gate has been appended; for \<open>n = 0\<close> it raises CircuitError at the first gate,
  with nothing appended.
\<close>

theorem ansatz_failure_modes:
  "(2 \<le> n \<or> n \<le> - 2 \<longrightarrow> fst (ansatz n) = None)
   \<and> (n = 1 \<or> n = - 1 \<longrightarrow>
        ansatz n = (Some IndexError, \<lparr>num_qubits = 1, num_clbits = 0,
                      data = [CircuitInstruction XGate [0] []]\<rparr>))
   \<and> (n = 0 \<longrightarrow>
        ansatz n = (Some CircuitError, \<lparr>num_qubits = 0, num_clbits = 0, data = []\<rparr>))"
proof -
  have "fst (ansatz n) = None" if "2 \<le> n"
    using that by (simp add: ansatz_eq)
  moreover have "fst (ansatz n) = None" if "n \<le> - 2"
    using that by (rule ansatz_negative)
  ultimately show ?thesis
    using ansatz_small by blast
qed

text \<open>The statement above at a concrete input.\<close>

theorem ansatz_failure_modes_witness:
  "fst (ansatz 5) = None \<and> fst (ansatz (- 2)) = None
   \<and> fst (ansatz 1) = Some IndexError \<and> data (snd (ansatz (- 1))) = [CircuitInstruction XGate [0] []]
   \<and> fst (ansatz 0) = Some CircuitError \<and> data (snd (ansatz 0)) = []"
  using ansatz_failure_modes[of 5] ansatz_failure_modes[of "- 2"] ansatz_failure_modes[of 1]
    ansatz_failure_modes[of "- 1"] ansatz_failure_modes[of 0]
  by simp

text \<open>
  Claim C7. As stated it fails in its last part: for three cities the two closing CNOTs of
  the base block target qubits 3 and 4, while the last two qubits of the nine-qubit
  register are 7 and 8.
\<close>

theorem base_block_targets_counterexample:
  "map (\<lambda>g. qubits g ! 1)
     (drop 5 (data (snd (base_circuit 3 (phi 3) (QuantumCircuit (ansatz_num_qubits 3))))))
     = [3, 4]
   \<and> [ansatz_num_qubits 3 - 2, ansatz_num_qubits 3 - 1] = [7, 8]"
  by code_simp

text \<open>
  Claim C7, amended. For \<open>n \<ge> 2\<close> the first step emits exactly seven instructions: the
  flip on qubit 0, a rotation by \<open>phi[1]\<close> and one by \<open>-phi[1]\<close> on qubit 1 around a
  controlled phase on qubits 0 and 1, a CNOT from qubit 1 to qubit 0, and two CNOTs into
  qubits \<open>n\<close> and \<open>n + 1\<close>; these are the first seven instructions of the ansatz, and
  \<open>n\<close>, \<open>n + 1\<close> are the last two qubits of the register exactly when \<open>n = 2\<close>.
\<close>

theorem base_block_gates:
  assumes "2 \<le> n"
  shows "base_circuit n (phi n) (QuantumCircuit (ansatz_num_qubits n)) =
      (None, \<lparr>num_qubits = nat (n ^ 2), num_clbits = 0,
               data = [CircuitInstruction XGate [0] [],
                       CircuitInstruction (RYGate (Par (ParameterVectorElement ''phi'' 1))) [1] [],
                       CircuitInstruction CZGate [0, 1] [],
                       CircuitInstruction (RYGate (Neg (ParameterVectorElement ''phi'' 1))) [1] [],
                       CircuitInstruction CXGate [1, 0] [],
                       CircuitInstruction CXGate [1, nat n] [],
                       CircuitInstruction CXGate [0, nat n + 1] []]\<rparr>)
    \<and> take 7 (data (snd (ansatz n))) =
         data (snd (base_circuit n (phi n) (QuantumCircuit (ansatz_num_qubits n))))
    \<and> ([nat n, nat n + 1] = [ansatz_num_qubits n - 2, ansatz_num_qubits n - 1] \<longleftrightarrow> n = 2)"
proof -
  define N where "N = nat (n ^ 2)"
  have N: "int N = n * n" by (simp add: N_def power2_eq_square)
  have gates: "base_gates n =
      [CircuitInstruction XGate [0] [],
       CircuitInstruction (RYGate (Par (ParameterVectorElement ''phi'' 1))) [1] [],
       CircuitInstruction CZGate [0, 1] [],
       CircuitInstruction (RYGate (Neg (ParameterVectorElement ''phi'' 1))) [1] [],
       CircuitInstruction CXGate [1, 0] [],
       CircuitInstruction CXGate [1, nat n] [],
       CircuitInstruction CXGate [0, nat n + 1] []]"
    using assms by (simp add: base_gates_def gate_def phi_elem_def nat_add_distrib)
  have "emits (base_circuit n (ParameterVector ''phi'' N)) N (base_gates n)"
    using assms N by (rule emits_base_circuit)
  then have base: "base_circuit n (phi n) (QuantumCircuit (ansatz_num_qubits n)) =
      (None, \<lparr>num_qubits = nat (n ^ 2), num_clbits = 0, data = base_gates n\<rparr>)"
    by (simp add: emits_def phi_def ansatz_num_qubits_def N_def QuantumCircuit_def)
  have "length (base_gates n) = 7" by (simp add: base_gates_def)
  then have prefix: "take 7 (data (snd (ansatz n))) = base_gates n"
    using assms by (simp add: ansatz_eq ansatz_gates_def)
  have last: "[nat n, nat n + 1] = [ansatz_num_qubits n - 2, ansatz_num_qubits n - 1] \<longleftrightarrow> n = 2"
  proof
    assume "[nat n, nat n + 1] = [ansatz_num_qubits n - 2, ansatz_num_qubits n - 1]"
    then have "nat n = N - 2" by (simp add: ansatz_num_qubits_def N_def)
    moreover from assms have "n * 2 \<le> n * n" by (intro mult_left_mono) simp_all
    ultimately have "n = n * n - 2" using assms N by linarith
    then have "n * (n - 1) = 2 * 1" by (simp add: algebra_simps)
    show "n = 2"
    proof (rule ccontr)
      assume "n \<noteq> 2"
      with assms have "3 \<le> n" by simp
      then have "3 * 2 \<le> n * (n - 1)" by (intro mult_mono) simp_all
      with \<open>n * (n - 1) = 2 * 1\<close> show False by simp
    qed
  next
    assume "n = 2"
    then show "[nat n, nat n + 1] = [ansatz_num_qubits n - 2, ansatz_num_qubits n - 1]"
      by (simp add: ansatz_num_qubits_def)
  qed
  from base prefix last show ?thesis by (simp add: gates)
qed

text \<open>The statement above at a concrete input.\<close>

theorem base_block_gates_witness:
  "take 7 (data (snd (ansatz 5))) =
     [CircuitInstruction XGate [0] [],
      CircuitInstruction (RYGate (Par (ParameterVectorElement ''phi'' 1))) [1] [],
      CircuitInstruction CZGate [0, 1] [],
      CircuitInstruction (RYGate (Neg (ParameterVectorElement ''phi'' 1))) [1] [],
      CircuitInstruction CXGate [1, 0] [],
      CircuitInstruction CXGate [1, 5] [],
      CircuitInstruction CXGate [0, 6] []]"
  using base_block_gates[of 5] by simp

text \<open>
  Claim C9. For \<open>n \<ge> 3\<close> the construction completes without raising, every instruction
  of the built circuit addresses qubits below \<open>n\<^sup>2\<close> only and never the same qubit twice,
  and the three operands of every controlled swap of the swap stage are integers in
  \<open>[0, n\<^sup>2 - 1]\<close> that are pairwise different.
\<close>

theorem ansatz_operands_valid:
  assumes "3 \<le> n"
  shows "fst (ansatz n) = None
       \<and> num_qubits (snd (ansatz n)) = nat (n ^ 2)
       \<and> (\<forall>g\<in>set (data (snd (ansatz n))).
             (\<forall>q\<in>set (qubits g). q < nat (n ^ 2)) \<and> distinct (qubits g))
       \<and> (\<forall>k v p. 3 \<le> k \<and> k \<le> n \<and> 1 \<le> v \<and> v \<le> k - 1 \<and> 1 \<le> p \<and> p \<le> k - 1 \<longrightarrow>
             (case cswap_operands n k v p of
                (c, t1, t2) \<Rightarrow>
                  0 \<le> c \<and> c < n ^ 2 \<and> 0 \<le> t1 \<and> t1 < n ^ 2 \<and> 0 \<le> t2 \<and> t2 < n ^ 2
                  \<and> c \<noteq> t1 \<and> c \<noteq> t2 \<and> t1 \<noteq> t2))"
proof -
  from assms have "fst (ansatz n) = None" by (simp add: ansatz_eq)
  moreover have nq: "num_qubits (snd (ansatz n)) = nat (n ^ 2)"
    by (rule num_qubits_ansatz)
  moreover have "\<forall>g\<in>set (data (snd (ansatz n))).
             (\<forall>q\<in>set (qubits g). q < nat (n ^ 2)) \<and> distinct (qubits g)"
    using well_formed_ansatz[of n] by (simp add: well_formed_def list_all_iff nq)
  moreover have "case cswap_operands n k v p of
                (c, t1, t2) \<Rightarrow>
                  0 \<le> c \<and> c < n ^ 2 \<and> 0 \<le> t1 \<and> t1 < n ^ 2 \<and> 0 \<le> t2 \<and> t2 < n ^ 2
                  \<and> c \<noteq> t1 \<and> c \<noteq> t2 \<and> t1 \<noteq> t2"
    if "3 \<le> k \<and> k \<le> n \<and> 1 \<le> v \<and> v \<le> k - 1 \<and> 1 \<le> p \<and> p \<le> k - 1" for k v p
  proof -
    have ops: "cswap_operands n k v p =
      (n * (k - 1) + (v - 1), n * (p - 1) + (k - 1), n * (p - 1) + (v - 1))"
      by (simp add: cswap_operands_def)
    have c: "0 \<le> n * (k - 1) + (v - 1)" "n * (k - 1) + (v - 1) < n * n"
      using that by (intro cell_bounds; simp)+
    have t1: "0 \<le> n * (p - 1) + (k - 1)" "n * (p - 1) + (k - 1) < n * n"
      using that by (intro cell_bounds; simp)+
    have t2: "0 \<le> n * (p - 1) + (v - 1)" "n * (p - 1) + (v - 1) < n * n"
      using that by (intro cell_bounds; simp)+
    have d1: "n * (k - 1) + (v - 1) \<noteq> n * (p - 1) + (k - 1)"
      using cell_inj[of "v - 1" n "k - 1" "k - 1" "p - 1"] that by auto
    have d2: "n * (k - 1) + (v - 1) \<noteq> n * (p - 1) + (v - 1)"
      using cell_inj[of "v - 1" n "v - 1" "k - 1" "p - 1"] that by auto
    have d3: "n * (p - 1) + (k - 1) \<noteq> n * (p - 1) + (v - 1)"
      using that by simp
    from c t1 t2 d1 d2 d3 show ?thesis
      by (simp only: ops prod.case power2_eq_square simp_thms)
  qed
  ultimately show ?thesis by blast
qed

text \<open>The statement above at a concrete input.\<close>

theorem ansatz_operands_valid_witness:
  "fst (ansatz 3) = None \<and> num_qubits (snd (ansatz 3)) = 9
   \<and> distinct (qubits (last (cswaps (snd (ansatz 3)))))
   \<and> (case cswap_operands 3 3 1 2 of
         (c, t1, t2) \<Rightarrow> c < 9 \<and> t1 < 9 \<and> t2 < 9 \<and> c \<noteq> t1 \<and> c \<noteq> t2 \<and> t1 \<noteq> t2)"
proof -
  note valid = ansatz_operands_valid[of 3]
  have all: "\<forall>g\<in>set (data (snd (ansatz 3))). distinct (qubits g)"
    using valid by simp
  have "cswaps (snd (ansatz 3)) = map (cswap_gate 3) (swap_triples 3)"
    by (simp add: cswaps_ansatz)
  moreover have "swap_triples 3 \<noteq> []"
    by code_simp
  ultimately have "last (cswaps (snd (ansatz 3))) \<in> set (cswaps (snd (ansatz 3)))"
    by (intro last_in_set) simp
  then have "last (cswaps (snd (ansatz 3))) \<in> set (data (snd (ansatz 3)))"
    by (simp add: cswaps_def)
  with all have "distinct (qubits (last (cswaps (snd (ansatz 3)))))"
    by blast
  moreover have "fst (ansatz 3) = None" "num_qubits (snd (ansatz 3)) = 9"
    using valid by simp_all
  moreover have "case cswap_operands 3 3 1 2 of
         (c, t1, t2) \<Rightarrow> c < 9 \<and> t1 < 9 \<and> t2 < 9 \<and> c \<noteq> t1 \<and> c \<noteq> t2 \<and> t1 \<noteq> t2"
  proof -
    from valid have "\<forall>k v p. 3 \<le> k \<and> k \<le> 3 \<and> 1 \<le> v \<and> v \<le> k - 1 \<and> 1 \<le> p \<and> p \<le> k - 1 \<longrightarrow>
             (case cswap_operands 3 k v p of
                (c, t1, t2) \<Rightarrow>
                  0 \<le> c \<and> c < 3 ^ 2 \<and> 0 \<le> t1 \<and> t1 < 3 ^ 2 \<and> 0 \<le> t2 \<and> t2 < 3 ^ 2
                  \<and> c \<noteq> t1 \<and> c \<noteq> t2 \<and> t1 \<noteq> t2)"
      by simp
    then have "case cswap_operands 3 3 1 2 of
                (c, t1, t2) \<Rightarrow>
                  0 \<le> c \<and> c < 3 ^ 2 \<and> 0 \<le> t1 \<and> t1 < 3 ^ 2 \<and> 0 \<le> t2 \<and> t2 < 3 ^ 2
                  \<and> c \<noteq> t1 \<and> c \<noteq> t2 \<and> t1 \<noteq> t2"
      by (elim allE[of _ 3] allE[of _ 1] allE[of _ 2]) simp
    then show ?thesis by (simp split: prod.splits)
  qed
  ultimately show ?thesis by blast
qed

section \<open>Properties of the cost functions and the drivers\<close>

lemma cost_fn_eq: "cost_fn = cost_func"
  by (intro ext) (simp add: cost_fn_def cost_func_def)

lemma cost_func_Inr:
  assumes "cost_func x c h est (s, d) = (Inr e, (s', d'))"
  shows "d' = d\<lparr>iters := iters d + 1, prev_vector := Some x,
                 cost_history := cost_history d @ [e]\<rparr>"
  using assms by (auto simp: cost_func_def split: prod.splits sum.splits)

lemma calls_cost_func:
  assumes "calls (est circ h) ps s = (Inr es, s')"
  shows "calls (\<lambda>x. cost_func x circ h est) ps (s, d) =
           (Inr es,
            (s', d\<lparr>iters := iters d + int (length ps),
                    prev_vector := (if ps = [] then prev_vector d else Some (last ps)),
                    cost_history := cost_history d @ es\<rparr>))
       \<and> length es = length ps"
  using assms
proof (induction ps arbitrary: s d es)
  case Nil
  then show ?case by simp
next
  case (Cons x xs)
  obtain r s1 where first: "est circ h x s = (r, s1)"
    by (cases "est circ h x s")
  with Cons.prems obtain e where r: "r = Inr e"
    by (cases r) simp_all
  obtain r2 s2 where rest: "calls (est circ h) xs s1 = (r2, s2)"
    by (cases "calls (est circ h) xs s1")
  with Cons.prems first r obtain es' where r2: "r2 = Inr es'"
    by (cases r2) simp_all
  from Cons.prems first r rest r2 have out: "es = e # es'" "s' = s2"
    by simp_all
  define d1 where "d1 = d\<lparr>iters := iters d + 1, prev_vector := Some x,
                            cost_history := cost_history d @ [e]\<rparr>"
  have call: "cost_func x circ h est (s, d) = (Inr e, (s1, d1))"
    by (simp add: cost_func_def first r d1_def)
  from rest r2 out have "calls (est circ h) xs s1 = (Inr es', s')"
    by simp
  from Cons.IH[OF this, where d = d1]
  have tail: "calls (\<lambda>x. cost_func x circ h est) xs (s1, d1) =
           (Inr es',
            (s', d1\<lparr>iters := iters d1 + int (length xs),
                     prev_vector := (if xs = [] then prev_vector d1 else Some (last xs)),
                     cost_history := cost_history d1 @ es'\<rparr>))"
    and len: "length es' = length xs"
    by simp_all
  have "calls (\<lambda>x. cost_func x circ h est) (x # xs) (s, d) =
      (Inr (e # es'),
       (s', d1\<lparr>iters := iters d1 + int (length xs),
                prev_vector := (if xs = [] then prev_vector d1 else Some (last xs)),
                cost_history := cost_history d1 @ es'\<rparr>))"
    by (simp add: call tail)
  with len out show ?case
    by (simp add: d1_def)
qed

lemma minimize_cost_func:
  assumes "minimize (\<lambda>x. cost_func x c h est) method m seen (s, d) = (Inr res, (s', d'))"
  shows "\<exists>new. res = seen @ new
       \<and> iters d' = iters d + int (length new)
       \<and> cost_history d' = cost_history d @ map snd new
       \<and> prev_vector d' = (if new = [] then prev_vector d else Some (fst (last new)))"
  using assms
proof (induction m arbitrary: seen s d)
  case 0
  then show ?case by simp
next
  case (Suc m)
  show ?case
  proof (cases "method seen")
    case None
    with Suc.prems show ?thesis by simp
  next
    case (Some x)
    obtain r s1 d1 where first: "cost_func x c h est (s, d) = (r, (s1, d1))"
      by (metis surj_pair)
    with Suc.prems Some obtain e where r: "r = Inr e"
      by (cases r) simp_all
    from Suc.prems Some first r
    have "minimize (\<lambda>x. cost_func x c h est) method m (seen @ [(x, e)]) (s1, d1)
            = (Inr res, (s', d'))"
      by simp
    from Suc.IH[OF this] obtain new where new: "res = (seen @ [(x, e)]) @ new"
      "iters d' = iters d1 + int (length new)"
      "cost_history d' = cost_history d1 @ map snd new"
      "prev_vector d' = (if new = [] then prev_vector d1 else Some (fst (last new)))"
      by blast
    from first r have d1: "d1 = d\<lparr>iters := iters d + 1, prev_vector := Some x,
                 cost_history := cost_history d @ [e]\<rparr>"
      by (simp add: cost_func_Inr)
    from new d1 have "res = seen @ ((x, e) # new)
       \<and> iters d' = iters d + int (length ((x, e) # new))
       \<and> cost_history d' = cost_history d @ map snd ((x, e) # new)
       \<and> prev_vector d' = (if (x, e) # new = [] then prev_vector d
                            else Some (fst (last ((x, e) # new))))"
      by simp
    then show ?thesis by blast
  qed
qed

lemma Hamiltonian_ising: "Hamiltonian J b observables = Inr (ising_op b)"
  by (simp add: Hamiltonian_def list_getitem_def py_index_def observables_def
        observables_labels_def SparsePauliOp_def op_mul_def op_add_def op_num_qubits_def
        J_def ising_op_def)

lemma b_list_values:
  "b_list = [0, 4 / 9, 8 / 9, 4 / 3, 16 / 9, 20 / 9, 8 / 3, 28 / 9, 32 / 9, 4]"
  by (simp add: b_list_def linspace_def upt_rec)

lemma loop_indices: "py_range 0 (int (length b_list)) = [0, 1, 2, 3, 4, 5, 6, 7, 8, 9]"
  by (simp add: b_list_values py_range_def upto_rec1)


lemma quantum_loop_Cons:
  "quantum_loop c al est method (b # bs) nb =
     (case minimize (\<lambda>x. cost_func x c (al (ising_op (of_int b))) est) (method b) 100 []
             (estimator_state nb, cost_dict nb) of
        (Inl e, (s', d')) \<Rightarrow> (Some e, nb\<lparr>estimator_state := s', cost_dict := d'\<rparr>)
      | (Inr res, (s', d')) \<Rightarrow>
          quantum_loop c al est method bs
            (nb\<lparr>estimator_state := s', cost_dict := d',
                ground_state_energies := ground_state_energies nb @ [res]\<rparr>))"
  by (simp add: Hamiltonian_ising cost_fn_eq)

lemma quantum_loop_append:
  "quantum_loop c al est method (xs @ ys) nb =
     (case quantum_loop c al est method xs nb of
        (None, nb') \<Rightarrow> quantum_loop c al est method ys nb'
      | (Some e, nb') \<Rightarrow> (Some e, nb'))"
proof (induction xs arbitrary: nb)
  case Nil
  show ?case by simp
next
  case (Cons x xs)
  show ?case
    by (simp only: append_Cons quantum_loop_Cons Cons.IH split: prod.splits sum.splits)
       (simp split: prod.splits sum.splits)
qed

lemma quantum_loop_trace:
  assumes "quantum_loop c al est method bs nb = (None, nb')"
  shows "\<exists>rs. ground_state_energies nb' = ground_state_energies nb @ rs
       \<and> length rs = length bs
       \<and> iters (cost_dict nb') = iters (cost_dict nb) + int (sum_list (map length rs))
       \<and> cost_history (cost_dict nb') = cost_history (cost_dict nb) @ concat (map (map snd) rs)"
  using assms
proof (induction bs arbitrary: nb)
  case Nil
  then show ?case by simp
next
  case (Cons b bs)
  obtain r s1 d1 where run: "minimize (\<lambda>x. cost_func x c (al (ising_op (of_int b))) est)
      (method b) 100 [] (estimator_state nb, cost_dict nb) = (r, (s1, d1))"
    by (metis surj_pair)
  with Cons.prems obtain res where r: "r = Inr res"
    by (cases r) (simp_all add: quantum_loop_Cons del: quantum_loop.simps)
  define nb1 where "nb1 = nb\<lparr>estimator_state := s1, cost_dict := d1,
                ground_state_energies := ground_state_energies nb @ [res]\<rparr>"
  from Cons.prems run r have "quantum_loop c al est method bs nb1 = (None, nb')"
    by (simp add: quantum_loop_Cons nb1_def del: quantum_loop.simps)
  from Cons.IH[OF this] obtain rs where rs:
    "ground_state_energies nb' = ground_state_energies nb1 @ rs"
    "length rs = length bs"
    "iters (cost_dict nb') = iters (cost_dict nb1) + int (sum_list (map length rs))"
    "cost_history (cost_dict nb') = cost_history (cost_dict nb1) @ concat (map (map snd) rs)"
    by blast
  from minimize_cost_func[OF run[unfolded r]] have one:
    "iters d1 = iters (cost_dict nb) + int (length res)"
    "cost_history d1 = cost_history (cost_dict nb) @ map snd res"
    by auto
  from rs one have "ground_state_energies nb' = ground_state_energies nb @ (res # rs)
       \<and> length (res # rs) = length (b # bs)
       \<and> iters (cost_dict nb') = iters (cost_dict nb) + int (sum_list (map length (res # rs)))
       \<and> cost_history (cost_dict nb') =
           cost_history (cost_dict nb) @ concat (map (map snd) (res # rs))"
    by (simp add: nb1_def)
  then show ?case by blast
qed

lemma minimize_recording:
  assumes "minimize (\<lambda>x. cost_func x c h recording_estimator) method m seen (hs, d) = (r, (hs', d'))"
  shows "\<exists>new. r = Inr (seen @ new) \<and> hs' = hs @ replicate (length new) h"
  using assms
proof (induction m arbitrary: seen hs d)
  case 0
  then show ?case by simp
next
  case (Suc m)
  show ?case
  proof (cases "method seen")
    case None
    with Suc.prems show ?thesis by simp
  next
    case (Some x)
    have one: "cost_func x c h recording_estimator (hs, d) =
        (Inr 0, (hs @ [h], d\<lparr>iters := iters d + 1, prev_vector := Some x,
                 cost_history := cost_history d @ [0]\<rparr>))"
      by (simp add: cost_func_def recording_estimator_def)
    from Suc.prems Some have "minimize (\<lambda>x. cost_func x c h recording_estimator) method m
        (seen @ [(x, 0)]) (hs @ [h], d\<lparr>iters := iters d + 1, prev_vector := Some x,
                 cost_history := cost_history d @ [0]\<rparr>) = (r, (hs', d'))"
      by (simp add: one)
    from Suc.IH[OF this] obtain new where
      "r = Inr ((seen @ [(x, 0)]) @ new)" "hs' = (hs @ [h]) @ replicate (length new) h"
      by blast
    then have "r = Inr (seen @ ((x, 0) # new)) \<and> hs' = hs @ replicate (length ((x, 0) # new)) h"
      by (simp add: replicate_app_Cons_same)
    then show ?thesis by blast
  qed
qed

lemma quantum_loop_recording:
  assumes "quantum_loop c al recording_estimator method bs nb = (r, nb')"
  shows "r = None \<and> (\<exists>rs. ground_state_energies nb' = ground_state_energies nb @ rs
       \<and> length rs = length bs
       \<and> estimator_state nb' = estimator_state nb
           @ concat (map2 (\<lambda>b res. replicate (length res) (al (ising_op (of_int b)))) bs rs))"
  using assms
proof (induction bs arbitrary: nb)
  case Nil
  then show ?case by auto
next
  case (Cons b bs)
  obtain r1 s1 d1 where run: "minimize (\<lambda>x. cost_func x c (al (ising_op (of_int b))) recording_estimator)
      (method b) 100 [] (estimator_state nb, cost_dict nb) = (r1, (s1, d1))"
    by (metis surj_pair)
  from minimize_recording[OF run] obtain res where res: "r1 = Inr res"
    "s1 = estimator_state nb @ replicate (length res) (al (ising_op (of_int b)))"
    by auto
  define nb1 where "nb1 = nb\<lparr>estimator_state := s1, cost_dict := d1,
                ground_state_energies := ground_state_energies nb @ [res]\<rparr>"
  from Cons.prems run res(1) have "quantum_loop c al recording_estimator method bs nb1 = (r, nb')"
    by (simp add: quantum_loop_Cons nb1_def del: quantum_loop.simps)
  from Cons.IH[OF this] obtain rs where r: "r = None" and rs:
    "ground_state_energies nb' = ground_state_energies nb1 @ rs"
    "length rs = length bs"
    "estimator_state nb' = estimator_state nb1
           @ concat (map2 (\<lambda>b res. replicate (length res) (al (ising_op (of_int b)))) bs rs)"
    by blast
  from rs res(2) have "ground_state_energies nb' = ground_state_energies nb @ (res # rs)
       \<and> length (res # rs) = length (b # bs)
       \<and> estimator_state nb' = estimator_state nb
           @ concat (map2 (\<lambda>b res. replicate (length res) (al (ising_op (of_int b))))
               (b # bs) (res # rs))"
    by (simp add: nb1_def)
  with r show ?case by blast
qed

lemma classical_loop_eq:
  "classical_loop tm eig bs acc = (None, acc @ map (\<lambda>b. eig (tm (ising_op (of_int b)))) bs)"
  by (induction bs arbitrary: acc) (simp_all add: Hamiltonian_ising)

lemma minimize_numeral:
  "minimize f method (numeral k) seen g =
     (case method seen of
        None \<Rightarrow> (Inr seen, g)
      | Some x \<Rightarrow>
          (case f x g of
             (Inl err, g') \<Rightarrow> (Inl err, g')
           | (Inr e, g') \<Rightarrow> minimize f method (pred_numeral k) (seen @ [(x, e)]) g'))"
  by (simp add: numeral_eq_Suc)

lemma quantum_loop_single:
  "quantum_loop () id recording_estimator single_evaluation (b # bs) nb =
     quantum_loop () id recording_estimator single_evaluation bs
       \<lparr>estimator_state = estimator_state nb @ [ising_op (of_int b)],
        cost_dict = \<lparr>prev_vector = Some b, iters = iters (cost_dict nb) + 1,
                     cost_history = cost_history (cost_dict nb) @ [0]\<rparr>,
        ground_state_energies = ground_state_energies nb @ [[(b, 0)]]\<rparr>"
proof -
  have "minimize (\<lambda>x. cost_func x () (ising_op (of_int b)) recording_estimator)
      (single_evaluation b) 100 [] (estimator_state nb, cost_dict nb) =
      (Inr [(b, 0)], (estimator_state nb @ [ising_op (of_int b)],
        \<lparr>prev_vector = Some b, iters = iters (cost_dict nb) + 1,
          cost_history = cost_history (cost_dict nb) @ [0]\<rparr>))"
    by (cases "cost_dict nb")
       (simp add: minimize_numeral single_evaluation_def cost_func_def recording_estimator_def)
  then show ?thesis
    by (cases nb) (simp add: quantum_loop_Cons del: quantum_loop.simps)
qed

lemma quantum_loop_continue:
  assumes "quantum_loop isa_ansatz apply_layout est method xs nb0 = (None, nb)"
  shows "quantum_loop isa_ansatz apply_layout est method (xs @ ys) nb0 =
     quantum_loop isa_ansatz apply_layout est method ys nb"
  by (simp only: quantum_loop_append[of _ _ _ _ xs ys] assms prod.case option.case)

lemma ising_matrix_zero_field:
  "SparsePauliOp_to_matrix (ising_op 0) =
     [[- 1, 0, 0, 0], [0, 1, 0, 0], [0, 0, 1, 0], [0, 0, 0, - 1]]"
  by (simp add: ising_op_def kron_def pauli_matrix_def mat_add_def mat_scale_def)

lemma length_four:
  assumes "length v = 4"
  obtains a b c d where "v = [a, b, c, d]"
proof -
  from assms obtain a v1 where "v = a # v1" "length v1 = 3"
    by (cases v) simp_all
  moreover then obtain b v2 where "v1 = b # v2" "length v2 = 2"
    by (cases v1) simp_all
  moreover then obtain c v3 where "v2 = c # v3" "length v3 = 1"
    by (cases v2) simp_all
  moreover then obtain d where "v3 = [d]"
    by (cases v3) simp_all
  ultimately show ?thesis using that by simp
qed

lemma ising_eigenvalues_zero_field:
  "eigenvalue (SparsePauliOp_to_matrix (ising_op 0)) ev \<longleftrightarrow> ev = - 1 \<or> ev = 1"
proof
  assume "eigenvalue (SparsePauliOp_to_matrix (ising_op 0)) ev"
  then obtain v where v: "length v = 4" "v \<noteq> [0, 0, 0, 0]"
      "mat_vec (SparsePauliOp_to_matrix (ising_op 0)) v = map (\<lambda>x. ev * x) v"
    by (auto simp: eigenvalue_def ising_matrix_zero_field numeral_eq_Suc)
  from v(1) obtain a b c d where abcd: "v = [a, b, c, d]" by (rule length_four)
  with v(3) have eqs: "- a = ev * a" "b = ev * b" "c = ev * c" "- d = ev * d"
    by (simp_all add: ising_matrix_zero_field mat_vec_def)
  from v(2) abcd consider "a \<noteq> 0" | "b \<noteq> 0" | "c \<noteq> 0" | "d \<noteq> 0" by auto
  then show "ev = - 1 \<or> ev = 1"
  proof cases
    case 1
    from eqs(1)[symmetric] have "(ev + 1) * a = 0" by (simp add: distrib_right)
    with 1 have "ev + 1 = 0" by simp
    then show ?thesis by (simp add: eq_neg_iff_add_eq_0)
  next
    case 2
    with eqs(2) show ?thesis by simp
  next
    case 3
    with eqs(3) show ?thesis by simp
  next
    case 4
    from eqs(4)[symmetric] have "(ev + 1) * d = 0" by (simp add: distrib_right)
    with 4 have "ev + 1 = 0" by simp
    then show ?thesis by (simp add: eq_neg_iff_add_eq_0)
  qed
next
  assume "ev = - 1 \<or> ev = 1"
  then show "eigenvalue (SparsePauliOp_to_matrix (ising_op 0)) ev"
  proof
    assume "ev = - 1"
    then show ?thesis
      unfolding eigenvalue_def ising_matrix_zero_field
      by (intro exI[of _ "[1, 0, 0, 0]"]) (simp add: mat_vec_def)
  next
    assume "ev = 1"
    then show ?thesis
      unfolding eigenvalue_def ising_matrix_zero_field
      by (intro exI[of _ "[0, 1, 0, 0]"]) (simp add: mat_vec_def)
  qed
qed


lemma ising_ground_energy_zero_field:
  "\<exists>H. Hamiltonian J 0 observables = Inr H
       \<and> eigenvalue (SparsePauliOp_to_matrix H) (- 1)
       \<and> (\<forall>ev. eigenvalue (SparsePauliOp_to_matrix H) ev \<longrightarrow> ev = - 1 \<or> ev = 1)"
  by (simp add: Hamiltonian_ising ising_eigenvalues_zero_field)

lemma minimize_raises:
  assumes "method seen = Some x" and "fst (f x g) = Inl err"
  shows "minimize f method (Suc maxiter) seen g = (Inl err, snd (f x g))"
  using assms by (cases "f x g") simp

section \<open>Claims about the variational loop and the Ising notebook\<close>

text \<open>
  Claim C4. As stated (after the \<open>k\<close> calls of one run the counter is \<open>k\<close> and the history
  has \<open>k\<close> entries) it fails for every run of the Ising notebook after the first: with a
  minimizer that evaluates once per run, the second run makes one call and leaves the
  counter at 2 and two energies in the history.
\<close>

theorem cost_trace_per_run_counterexample:
  "map length
     (ground_state_energies
        (snd (quantum_loop () id recording_estimator single_evaluation
                (take 2 (py_range 0 (int (length b_list)))) (fresh_notebook [])))) = [1, 1]
   \<and> cost_dict (snd (quantum_loop () id recording_estimator single_evaluation
                       (take 2 (py_range 0 (int (length b_list)))) (fresh_notebook [])))
       = \<lparr>prev_vector = Some 1, iters = 2, cost_history = [0, 0]\<rparr>"
  by (simp add: loop_indices quantum_loop_single fresh_notebook_def cost_history_dict_def
        numeral_2_eq_2 del: quantum_loop.simps(2))

text \<open>
  Claim C4, amended. Whenever the estimator answers the requests for the parameter vectors
  \<open>ps\<close>, made in this order, with the energies \<open>es\<close>, the calls of the cost function
  (\<open>cost_func\<close> or \<open>cost_fn\<close>) at \<open>ps\<close> all return, with these energies; they add the number
  of calls to the counter, append the energies to the history in call order, one per call,
  and leave the vector of the last call as the recorded one. Starting from the dictionary
  as it is created, the counter then is the number of calls and the history is \<open>es\<close>.
\<close>

theorem cost_trace_counts_calls:
  assumes "F = cost_func \<or> F = cost_fn"
    and "calls (est circ h) ps s = (Inr es, s')"
  shows "calls (\<lambda>x. F x circ h est) ps (s, d) =
           (Inr es,
            (s', d\<lparr>iters := iters d + int (length ps),
                    prev_vector := (if ps = [] then prev_vector d else Some (last ps)),
                    cost_history := cost_history d @ es\<rparr>))
       \<and> length es = length ps
       \<and> calls (\<lambda>x. F x circ h est) ps (s, cost_history_dict) =
           (Inr es,
            (s', \<lparr>prev_vector = (if ps = [] then None else Some (last ps)),
                  iters = int (length ps), cost_history = es\<rparr>))"
proof -
  from assms(1) have F: "F = cost_func" by (auto simp: cost_fn_eq)
  note general = calls_cost_func[where est = est and circ = circ and h = h, OF assms(2)]
  have fresh: "calls (\<lambda>x. cost_func x circ h est) ps (s, cost_history_dict) =
           (Inr es,
            (s', \<lparr>prev_vector = (if ps = [] then None else Some (last ps)),
                  iters = int (length ps), cost_history = es\<rparr>))"
    using general[of cost_history_dict] by (simp add: cost_history_dict_def)
  from general[of d] fresh show ?thesis
    by (simp only: F simp_thms)
qed

text \<open>The statement above at a concrete input.\<close>

theorem cost_trace_counts_calls_witness:
  "calls (\<lambda>x. cost_func x () () recording_estimator) [10, 20, 30 :: int] ([], cost_history_dict)
     = (Inr [0, 0, 0],
        ([(), (), ()], \<lparr>prev_vector = Some 30, iters = 3, cost_history = [0, 0, 0]\<rparr>))
   \<and> calls (\<lambda>x. cost_fn x () () recording_estimator) [10, 20, 30 :: int]
         ([()], \<lparr>prev_vector = Some 5, iters = 1, cost_history = [0]\<rparr>)
     = (Inr [0, 0, 0],
        ([(), (), (), ()], \<lparr>prev_vector = Some 30, iters = 4, cost_history = [0, 0, 0, 0]\<rparr>))"
proof -
  have first: "calls (recording_estimator () ()) [10, 20, 30 :: int] []
      = (Inr [0, 0, 0], [(), (), ()])"
    by (simp add: recording_estimator_def)
  have later: "calls (recording_estimator () ()) [10, 20, 30 :: int] [()]
      = (Inr [0, 0, 0], [(), (), (), ()])"
    by (simp add: recording_estimator_def)
  have "calls (\<lambda>x. cost_func x () () recording_estimator) [10, 20, 30 :: int]
          ([], cost_history_dict)
     = (Inr [0, 0, 0],
        ([(), (), ()], \<lparr>prev_vector = Some 30, iters = 3, cost_history = [0, 0, 0]\<rparr>))"
    using cost_trace_counts_calls[where F = cost_func and est = recording_estimator
        and circ = "()" and h = "()", OF _ first, THEN conjunct2, THEN conjunct2]
    by (simp del: calls.simps)
  moreover have "calls (\<lambda>x. cost_fn x () () recording_estimator) [10, 20, 30 :: int]
         ([()], \<lparr>prev_vector = Some 5, iters = 1, cost_history = [0]\<rparr>)
     = (Inr [0, 0, 0],
        ([(), (), (), ()], \<lparr>prev_vector = Some 30, iters = 4, cost_history = [0, 0, 0, 0]\<rparr>))"
    using cost_trace_counts_calls[where F = cost_fn and est = recording_estimator
        and circ = "()" and h = "()"
        and d = "\<lparr>prev_vector = Some 5, iters = 1, cost_history = [0]\<rparr>", OF _ later,
        THEN conjunct1]
    by (simp del: calls.simps)
  ultimately show ?thesis by (intro conjI)
qed

text \<open>
  Claim C5. As stated (counter zero and history empty at the start of each run) it fails:
  with a minimizer that evaluates once per run, the second run of the Ising notebook
  starts with the counter at 1 and one energy in the history.
\<close>

theorem cost_trace_reset_counterexample:
  "cost_dict (snd (quantum_loop () id recording_estimator single_evaluation
                     (take 1 (py_range 0 (int (length b_list)))) (fresh_notebook [])))
     = \<lparr>prev_vector = Some 0, iters = 1, cost_history = [0]\<rparr>"
  by (simp add: loop_indices quantum_loop_single fresh_notebook_def cost_history_dict_def
        del: quantum_loop.simps(2))

text \<open>
  Claim C5, amended. The dictionary is created once and changes only through the
  evaluation step; nothing resets it between runs. If the first \<open>r\<close> runs of the Ising
  notebook complete and leave the notebook in state \<open>nb\<close>, then the remaining runs start
  from \<open>nb\<close>, the counter in \<open>nb\<close> is the total number of evaluations of those \<open>r\<close> runs,
  and the history holds their energies in order. So the counter is zero at the start of a
  run exactly when no earlier run has made an evaluation, and likewise the history is
  empty exactly then.
\<close>

theorem cost_trace_accumulates:
  assumes "quantum_loop isa_ansatz apply_layout est method
             (take r (py_range 0 (int (length b_list)))) (fresh_notebook s) = (None, nb)"
  shows "quantum_runs isa_ansatz apply_layout est method s =
           quantum_loop isa_ansatz apply_layout est method
             (drop r (py_range 0 (int (length b_list)))) nb
       \<and> length (ground_state_energies nb) = min r 10
       \<and> iters (cost_dict nb) = int (sum_list (map length (ground_state_energies nb)))
       \<and> cost_history (cost_dict nb) = concat (map (map snd) (ground_state_energies nb))
       \<and> (iters (cost_dict nb) = 0 \<longleftrightarrow> concat (ground_state_energies nb) = [])
       \<and> (cost_history (cost_dict nb) = [] \<longleftrightarrow> concat (ground_state_energies nb) = [])"
proof -
  let ?bs = "py_range 0 (int (length b_list))"
  have "quantum_runs isa_ansatz apply_layout est method s =
      quantum_loop isa_ansatz apply_layout est method (take r ?bs @ drop r ?bs) (fresh_notebook s)"
    by (simp only: append_take_drop_id quantum_runs_def fresh_notebook_def)
  also have "\<dots> = quantum_loop isa_ansatz apply_layout est method (drop r ?bs) nb"
    using assms by (rule quantum_loop_continue)
  finally have cont: "quantum_runs isa_ansatz apply_layout est method s =
      quantum_loop isa_ansatz apply_layout est method (drop r ?bs) nb" .
  have len: "length ?bs = 10"
    by (simp add: loop_indices)
  have trace: "length (ground_state_energies nb) = min r 10
      \<and> iters (cost_dict nb) = int (sum_list (map length (ground_state_energies nb)))
      \<and> cost_history (cost_dict nb) = concat (map (map snd) (ground_state_energies nb))"
    using quantum_loop_trace[OF assms]
    by (auto simp: fresh_notebook_def cost_history_dict_def len min.commute)
  from trace have "iters (cost_dict nb) = int (length (concat (ground_state_energies nb)))"
    by (simp add: length_concat)
  then have zero: "iters (cost_dict nb) = 0 \<longleftrightarrow> concat (ground_state_energies nb) = []"
    by simp
  from trace have "cost_history (cost_dict nb) = map snd (concat (ground_state_energies nb))"
    by (simp add: map_concat)
  then have empty: "cost_history (cost_dict nb) = [] \<longleftrightarrow> concat (ground_state_energies nb) = []"
    by simp
  from cont trace zero empty show ?thesis by (intro conjI) simp_all
qed

text \<open>
  The statement above at a concrete input: after the first run, made with the operator the
  notebook builds for the loop index 0, the nine remaining runs start with the counter at 1.
\<close>

theorem cost_trace_accumulates_witness:
  "quantum_runs () id recording_estimator single_evaluation [] =
     quantum_loop () id recording_estimator single_evaluation
       (drop 1 (py_range 0 (int (length b_list))))
       \<lparr>estimator_state = [[(''ZZ'', - 1), (''II'', 0)]],
        cost_dict = \<lparr>prev_vector = Some 0, iters = 1, cost_history = [0]\<rparr>,
        ground_state_energies = [[(0, 0)]]\<rparr>"
proof -
  have "quantum_loop () id recording_estimator single_evaluation
          (take 1 (py_range 0 (int (length b_list)))) (fresh_notebook [])
      = (None, \<lparr>estimator_state = [[(''ZZ'', - 1), (''II'', 0)]],
        cost_dict = \<lparr>prev_vector = Some 0, iters = 1, cost_history = [0 :: int]\<rparr>,
        ground_state_energies = [[(0, 0)]]\<rparr>)"
    by (simp add: loop_indices quantum_loop_single fresh_notebook_def cost_history_dict_def
        ising_op_def del: quantum_loop.simps(2))
  from cost_trace_accumulates[OF this]
  have "quantum_runs () id recording_estimator single_evaluation [] =
     quantum_loop () id recording_estimator single_evaluation
       (drop 1 (py_range 0 (int (length b_list))))
       \<lparr>estimator_state = [[(''ZZ'', - 1), (''II'', 0)]],
        cost_dict = \<lparr>prev_vector = Some 0, iters = 1, cost_history = [0]\<rparr>,
        ground_state_energies = [[(0, 0)]]\<rparr>"
    by (rule conjunct1)
  then show ?thesis .
qed

text \<open>
  Claim C6. What a cost function hands back to the minimizer is the outcome of its one
  estimator request, unchanged: the exception if the request raised (the dictionary is
  then untouched), else the energy, whatever its value, which is also what is appended to
  the history. The estimator's state is the state after exactly that one request, so
  there is no second request and no substituted value. An exception raised at a point the
  minimizer asks for ends the minimization with that exception.
\<close>

theorem cost_function_surfaces_outcome:
  "fst (cost_func params circ h est (s, d)) = fst (est circ h params s)
   \<and> fst (snd (cost_func params circ h est (s, d))) = snd (est circ h params s)
   \<and> snd (snd (cost_func params circ h est (s, d))) =
       (case fst (est circ h params s) of
          Inl err \<Rightarrow> d
        | Inr energy \<Rightarrow> d\<lparr>iters := iters d + 1, prev_vector := Some params,
                          cost_history := cost_history d @ [energy]\<rparr>)
   \<and> cost_fn params circ h est (s, d) = cost_func params circ h est (s, d)
   \<and> (method seen = Some params \<and> fst (est circ h params s) = Inl err \<longrightarrow>
        minimize (\<lambda>x. cost_func x circ h est) method (Suc maxiter) seen (s, d)
          = (Inl err, (snd (est circ h params s), d)))"
proof -
  obtain r s1 where est: "est circ h params s = (r, s1)"
    by (cases "est circ h params s")
  have call: "cost_func params circ h est (s, d) =
      (r, (s1, case r of Inl err \<Rightarrow> d
                | Inr energy \<Rightarrow> d\<lparr>iters := iters d + 1, prev_vector := Some params,
                          cost_history := cost_history d @ [energy]\<rparr>))"
    by (cases r) (simp_all add: cost_func_def est)
  have raise: "minimize (\<lambda>x. cost_func x circ h est) method (Suc maxiter) seen (s, d)
          = (Inl err, (snd (est circ h params s), d))"
    if "method seen = Some params" and "fst (est circ h params s) = Inl err"
  proof -
    from that(2) est have r: "r = Inl err" by simp
    have "minimize (\<lambda>x. cost_func x circ h est) method (Suc maxiter) seen (s, d)
        = (Inl err, snd (cost_func params circ h est (s, d)))"
      using that(1) by (rule minimize_raises) (simp add: call r)
    then show ?thesis by (simp add: call r est)
  qed
  from call est raise show ?thesis
    by (simp add: cost_fn_eq)
qed

text \<open>The statement above at a concrete input.\<close>

theorem cost_function_surfaces_outcome_witness:
  "cost_func [0 :: int] () () nan_estimator (0, cost_history_dict)
     = (Inr NaN, (1, \<lparr>prev_vector = Some [0], iters = 1, cost_history = [NaN]\<rparr>))
   \<and> cost_fn [0 :: int] () () failing_estimator (0, cost_history_dict)
     = (Inl (ExternalError ''job failed''), (1, cost_history_dict))"
proof -
  note a = cost_function_surfaces_outcome[of "[0 :: int]" "()" "()" nan_estimator 0 cost_history_dict]
  note b = cost_function_surfaces_outcome[of "[0 :: int]" "()" "()" failing_estimator 0
      cost_history_dict]
  have "cost_func [0 :: int] () () nan_estimator (0, cost_history_dict)
     = (Inr NaN, (1, \<lparr>prev_vector = Some [0], iters = 1, cost_history = [NaN]\<rparr>))"
    using a by (intro prod_eqI) (simp_all add: nan_estimator_def cost_history_dict_def)
  moreover have "cost_fn [0 :: int] () () failing_estimator (0, cost_history_dict)
     = (Inl (ExternalError ''job failed''), (1, cost_history_dict))"
    using b by (intro prod_eqI) (simp_all add: failing_estimator_def)
  ultimately show ?thesis by simp
qed

text \<open>
  Claim C10. The loop variable of both loops runs over \<open>0, \<dots>, 9\<close>, and the operator built
  at position \<open>i\<close> is \<open>Hamiltonian(J, i, observables)\<close>, with the loop index as the field: the
  terms \<open>ZZ\<close>, \<open>IX\<close>, \<open>XI\<close> with the coefficients \<open>-1\<close>, \<open>i\<close>, \<open>i\<close> for \<open>i \<ge> 1\<close>, and \<open>ZZ\<close>, \<open>II\<close>
  with \<open>-1\<close>, \<open>0\<close> for \<open>i = 0\<close>. The classical energies are computed from these ten
  operators, and every estimator request of the \<open>i\<close>-th quantum run receives the operator of
  index \<open>i\<close> (shown with an estimator that records what it is given). The plot pairs the
  energies with the values of \<open>b_list\<close>, which are \<open>4 i / 9\<close>; index and value agree at position
  0 only, and so do the operators built from them.
\<close>

theorem loops_pass_index_as_field:
  "py_range 0 (int (length b_list)) = [0, 1, 2, 3, 4, 5, 6, 7, 8, 9]
   \<and> Hamiltonian J (of_int i) observables = Inr (ising_op (of_int i))
   \<and> ising_op (of_int i) =
       (if i = 0 then [(''ZZ'', - 1), (''II'', 0)]
        else [(''ZZ'', - 1), (''IX'', of_int i), (''XI'', of_int i)])
   \<and> classical_benchmark to_matrix sorted_eig =
       (None, map (\<lambda>i. sorted_eig (to_matrix (ising_op (of_int i)))) [0, 1, 2, 3, 4, 5, 6, 7, 8, 9])
   \<and> fst (quantum_runs isa_ansatz apply_layout recording_estimator method []) = None
   \<and> estimator_state (snd (quantum_runs isa_ansatz apply_layout recording_estimator method [])) =
       concat (map2 (\<lambda>i res. replicate (length res) (apply_layout (ising_op (of_int i))))
                 [0, 1, 2, 3, 4, 5, 6, 7, 8, 9]
                 (ground_state_energies
                    (snd (quantum_runs isa_ansatz apply_layout recording_estimator method []))))
   \<and> estimator_state (snd (quantum_runs () id recording_estimator single_evaluation [])) =
       map (\<lambda>i. ising_op (of_int i)) [0, 1, 2, 3, 4, 5, 6, 7, 8, 9]
   \<and> b_list = [0, 4 / 9, 8 / 9, 4 / 3, 16 / 9, 20 / 9, 8 / 3, 28 / 9, 32 / 9, 4]
   \<and> map fst (plot_points energy_levels) = take (length energy_levels) b_list
   \<and> filter (\<lambda>i. of_int i = b_list ! nat i) [0, 1, 2, 3, 4, 5, 6, 7, 8, 9] = [0]
   \<and> filter (\<lambda>i. Hamiltonian J (of_real (b_list ! nat i)) observables =
                    Hamiltonian J (of_int i) observables)
        [0, 1, 2, 3, 4, 5, 6, 7, 8, 9] = [0]"
proof -
  let ?run = "quantum_runs isa_ansatz apply_layout recording_estimator method []"
  obtain r nb where run: "?run = (r, nb)" by (cases ?run)
  then have "quantum_loop isa_ansatz apply_layout recording_estimator method
      [0, 1, 2, 3, 4, 5, 6, 7, 8, 9] (fresh_notebook []) = (r, nb)"
    by (simp add: quantum_runs_def loop_indices fresh_notebook_def del: quantum_loop.simps)
  from quantum_loop_recording[OF this] obtain rs where rs: "r = None"
    "ground_state_energies nb = rs"
    "estimator_state nb =
       concat (map2 (\<lambda>b res. replicate (length res) (apply_layout (ising_op (of_int b))))
                 [0, 1, 2, 3, 4, 5, 6, 7, 8, 9] rs)"
    by (auto simp: fresh_notebook_def)
  have q: "fst ?run = None"
    "estimator_state (snd ?run) =
       concat (map2 (\<lambda>i res. replicate (length res) (apply_layout (ising_op (of_int i))))
                 [0, 1, 2, 3, 4, 5, 6, 7, 8, 9] (ground_state_energies (snd ?run)))"
    using rs by (simp_all only: run fst_conv snd_conv)
  have single: "estimator_state (snd (quantum_runs () id recording_estimator single_evaluation []))
      = map (\<lambda>i. ising_op (of_int i)) [0, 1, 2, 3, 4, 5, 6, 7, 8, 9]"
    by (simp add: quantum_runs_def loop_indices quantum_loop_single
        del: quantum_loop.simps(2))
  have classical: "classical_benchmark to_matrix sorted_eig =
       (None, map (\<lambda>i. sorted_eig (to_matrix (ising_op (of_int i)))) [0, 1, 2, 3, 4, 5, 6, 7, 8, 9])"
    by (simp only: classical_benchmark_def classical_loop_eq loop_indices append_Nil)
  have op: "ising_op (of_int i) =
       (if i = 0 then [(''ZZ'', - 1), (''II'', 0)]
        else [(''ZZ'', - 1), (''IX'', of_int i), (''XI'', of_int i)])"
    by (simp add: ising_op_def)
  have plot: "map fst (plot_points energy_levels) = take (length energy_levels) b_list"
    by (simp add: plot_points_def map_fst_zip_take min_def)
  have agree: "filter (\<lambda>i. of_int i = b_list ! nat i) [0, 1, 2, 3, 4, 5, 6, 7, 8, 9] = [0]"
    by (simp add: b_list_values)
  have ops: "filter (\<lambda>i. Hamiltonian J (of_real (b_list ! nat i)) observables =
                    Hamiltonian J (of_int i) observables)
        [0, 1, 2, 3, 4, 5, 6, 7, 8, 9] = [0]"
    by (simp add: b_list_values Hamiltonian_ising ising_op_def)
  from loop_indices Hamiltonian_ising[of "of_int i"] op classical q single b_list_values plot
    agree ops
  show ?thesis by (intro conjI)
qed

text \<open>The statement above at concrete inputs: the loop indices 0 and 3.\<close>

theorem loops_pass_index_as_field_witness:
  "Hamiltonian J 0 observables = Inr [(''ZZ'', - 1), (''II'', 0)]
   \<and> Hamiltonian J 3 observables = Inr [(''ZZ'', - 1), (''IX'', 3), (''XI'', 3)]
   \<and> b_list ! 3 = 4 / 3
   \<and> fst (classical_benchmark id id) = None
   \<and> snd (classical_benchmark id id) ! 0 = [(''ZZ'', - 1), (''II'', 0)]
   \<and> snd (classical_benchmark id id) ! 3 = [(''ZZ'', - 1), (''IX'', 3), (''XI'', 3)]"
proof -
  note t0 = loops_pass_index_as_field[of 0 id id, THEN conjunct2]
  note t3 = loops_pass_index_as_field[of 3 id id, THEN conjunct2]
  have h0: "Hamiltonian J (of_int 0) observables = Inr (ising_op (of_int 0))"
    by (rule t0[THEN conjunct1])
  have o0: "ising_op (of_int 0) =
       (if (0 :: int) = 0 then [(''ZZ'', - 1), (''II'', 0)]
        else [(''ZZ'', - 1), (''IX'', of_int 0), (''XI'', of_int 0)])"
    by (rule t0[THEN conjunct2, THEN conjunct1])
  have h3: "Hamiltonian J (of_int 3) observables = Inr (ising_op (of_int 3))"
    by (rule t3[THEN conjunct1])
  have o3: "ising_op (of_int 3) =
       (if (3 :: int) = 0 then [(''ZZ'', - 1), (''II'', 0)]
        else [(''ZZ'', - 1), (''IX'', of_int 3), (''XI'', of_int 3)])"
    by (rule t3[THEN conjunct2, THEN conjunct1])
  have c: "classical_benchmark id id =
       (None, map (\<lambda>i. id (id (ising_op (of_int i)))) [0, 1, 2, 3, 4, 5, 6, 7, 8, 9])"
    by (rule t3[THEN conjunct2, THEN conjunct2, THEN conjunct1])
  have b: "b_list = [0, 4 / 9, 8 / 9, 4 / 3, 16 / 9, 20 / 9, 8 / 3, 28 / 9, 32 / 9, 4]"
    by (rule t3[THEN conjunct2, THEN conjunct2, THEN conjunct2, THEN conjunct2,
          THEN conjunct2, THEN conjunct2, THEN conjunct1])
  have i0: "ising_op 0 = [(''ZZ'', - 1), (''II'', 0)]"
    using o0 by simp
  have i3: "ising_op 3 = [(''ZZ'', - 1), (''IX'', 3), (''XI'', 3)]"
    using o3 by simp
  have "Hamiltonian J 0 observables = Inr [(''ZZ'', - 1), (''II'', 0)]"
    using h0 by (simp add: i0)
  moreover have "Hamiltonian J 3 observables = Inr [(''ZZ'', - 1), (''IX'', 3), (''XI'', 3)]"
    using h3 by (simp add: i3)
  moreover have "b_list ! 3 = 4 / 3"
    by (simp add: b)
  moreover have "fst (classical_benchmark id id) = None"
    by (simp add: c)
  moreover have "snd (classical_benchmark id id) ! 0 = [(''ZZ'', - 1), (''II'', 0)]"
    by (simp add: c i0)
  moreover have "snd (classical_benchmark id id) ! 3 = [(''ZZ'', - 1), (''IX'', 3), (''XI'', 3)]"
    by (simp add: c i3)
  ultimately show ?thesis by (intro conjI)
qed

end
